theory Spec2Isabelle
  imports Complex_Main "HOL-Library.Multiset" "HOL-Library.Log_Nat"
begin

section \<open>JavaScript values used by the report client\<close>

text \<open>
  The client of \<^verbatim>\<open>src/App.jsx\<close> works on plain JavaScript objects. The values a report
  field can hold are \<^verbatim>\<open>null\<close>, a string, or a number; a finite IEEE double is a
  rational, so numbers are kept as \<^typ>\<open>rat\<close>. An object is the list of its own
  enumerable properties in insertion order, which is the order \<^verbatim>\<open>Object.keys\<close> walks.
\<close>

datatype js_value = JNull | JString string | JNumber rat

type_synonym js_object = "(string \<times> js_value) list"

record js_file =
  file_name :: string
  file_size :: nat

section \<open>ReportForm\<close>

subsection \<open>Component state\<close>

text \<open>
  \<^verbatim>\<open>useState\<close> at lines 572-581: the six text fields of the form, the selected photo
  (\<^verbatim>\<open>null\<close> or \<^verbatim>\<open>undefined\<close> is \<open>None\<close>) and the error banner.
\<close>

record form_data =
  station_city :: string
  station_name :: string
  issue_category :: string
  description :: string
  urgency_level :: string
  reporter_contact :: string

record form_state =
  formData :: form_data
  photo :: "js_file option"
  error :: "string option"

definition emptyFormData :: form_data where
  "emptyFormData =
     \<lparr>station_city = '''', station_name = '''', issue_category = '''', description = '''',
      urgency_level = ''Medium'', reporter_contact = ''''\<rparr>"

definition initialFormState :: form_state where
  "initialFormState = \<lparr>formData = emptyFormData, photo = None, error = None\<rparr>"

text \<open>The argument of \<^verbatim>\<open>mutation.mutate\<close>: \<^verbatim>\<open>{ reportData, photo }\<close>.\<close>

record mutation_variables =
  reportData :: js_object
  attachedPhoto :: "js_file option"

subsection \<open>Building the multipart body (mutationFn, lines 584-595)\<close>

text \<open>
  A \<^verbatim>\<open>FormData\<close> body is the ordered list of its parts. A \<open>Field v\<close> part carries the
  text \<^verbatim>\<open>String(v)\<close>, so a part \<open>Field JNull\<close> would be the text \<^verbatim>\<open>"null"\<close>.
\<close>

datatype form_part = Field js_value | FilePart js_file

type_synonym form_body = "(string \<times> form_part) list"

definition mutationFn :: "mutation_variables \<Rightarrow> form_body" where
  "mutationFn vars =
     map (\<lambda>(key, v). (key, Field v)) (filter (\<lambda>(key, v). v \<noteq> JNull) (reportData vars))
     @ (case attachedPhoto vars of None \<Rightarrow> [] | Some f \<Rightarrow> [(''photo'', FilePart f)])"

subsection \<open>handlePhotoChange (lines 615-623)\<close>

text \<open>The argument is \<^verbatim>\<open>e.target.files[0]\<close>, which is \<^verbatim>\<open>undefined\<close> when no file is chosen.\<close>

definition handlePhotoChange :: "js_file option \<Rightarrow> form_state \<Rightarrow> form_state" where
  "handlePhotoChange file st =
     (case file of
        Some f \<Rightarrow>
          if file_size f > 10 * 1024 * 1024
          then st\<lparr>error := Some ''File size must be less than 10MB''\<rparr>
          else st\<lparr>photo := Some f, error := None\<rparr>
      | None \<Rightarrow> st\<lparr>photo := None, error := None\<rparr>)"

subsection \<open>handleSubmit (lines 625-656)\<close>

text \<open>
  What the browser does with the geolocation request: \<^verbatim>\<open>navigator.geolocation\<close> is
  missing, or \<^verbatim>\<open>getCurrentPosition\<close> invokes the success callback with coordinates, or
  it invokes the error callback, or it has invoked neither (the request is made without a
  timeout option).
\<close>

datatype geolocation =
    GeoUnavailable
  | GeoSuccess rat rat
  | GeoError
  | GeoPending

definition entries_of :: "form_data \<Rightarrow> js_object" where
  "entries_of fd =
     [(''station_city'', JString (station_city fd)),
      (''station_name'', JString (station_name fd)),
      (''issue_category'', JString (issue_category fd)),
      (''description'', JString (description fd)),
      (''urgency_level'', JString (urgency_level fd)),
      (''reporter_contact'', JString (reporter_contact fd))]"

text \<open>
  \<^verbatim>\<open>{ ...formData, status: "Submitted", latitude: null, longitude: null }\<close>, with the two
  coordinates as the callbacks leave them.
\<close>

definition reportPayload :: "form_data \<Rightarrow> js_value \<Rightarrow> js_value \<Rightarrow> js_object" where
  "reportPayload fd lat lon =
     entries_of fd @
     [(''status'', JString ''Submitted''), (''latitude'', lat), (''longitude'', lon)]"

text \<open>
  The handler returns the next component state and the list of \<^verbatim>\<open>mutation.mutate\<close>
  calls it causes. A string is falsy exactly when it is empty.
\<close>

definition handleSubmit :: "geolocation \<Rightarrow> form_state \<Rightarrow> form_state \<times> mutation_variables list" where
  "handleSubmit geo st =
     (let st1 = st\<lparr>error := None\<rparr>; fd = formData st1 in
      if station_city fd = '''' \<or> station_name fd = '''' \<or> issue_category fd = ''''
         \<or> description fd = ''''
      then (st1\<lparr>error := Some ''Please fill in all required fields (marked with *).''\<rparr>, [])
      else
        (let submitAction = (\<lambda>data. [\<lparr>reportData = data, attachedPhoto = photo st1\<rparr>]) in
         case geo of
           GeoSuccess lat lon \<Rightarrow> (st1, submitAction (reportPayload fd (JNumber lat) (JNumber lon)))
         | GeoError \<Rightarrow> (st1, submitAction (reportPayload fd JNull JNull))
         | GeoPending \<Rightarrow> (st1, [])
         | GeoUnavailable \<Rightarrow> (st1, submitAction (reportPayload fd JNull JNull))))"

text \<open>The bodies handed to \<^verbatim>\<open>submitReport\<close>, that is, to \<^verbatim>\<open>fetch\<close>.\<close>

definition submitted_bodies :: "geolocation \<Rightarrow> form_state \<Rightarrow> form_body list" where
  "submitted_bodies geo st = map mutationFn (snd (handleSubmit geo st))"

subsection \<open>The mutation's callbacks (lines 596-612)\<close>

definition mutation_onSuccess :: "form_state \<Rightarrow> form_state" where
  "mutation_onSuccess st = \<lparr>formData = emptyFormData, photo = None, error = None\<rparr>"

definition mutation_onError :: "string \<Rightarrow> form_state \<Rightarrow> form_state" where
  "mutation_onError message st =
     st\<lparr>error := Some (''Failed to submit report. Details: ''
                        @ (if message = '''' then ''Unknown Error'' else message) @ ''.'')\<rparr>"

subsection \<open>The form as an event system\<close>

datatype form_event =
    EditForm form_data
  | PhotoChange "js_file option"
  | Submit geolocation
  | MutationSucceeded
  | MutationFailed string

fun form_step :: "form_state \<Rightarrow> form_event \<Rightarrow> form_state \<times> mutation_variables list" where
  "form_step st (EditForm fd) = (st\<lparr>formData := fd\<rparr>, [])"
| "form_step st (PhotoChange file) = (handlePhotoChange file st, [])"
| "form_step st (Submit geo) = handleSubmit geo st"
| "form_step st MutationSucceeded = (mutation_onSuccess st, [])"
| "form_step st (MutationFailed message) = (mutation_onError message st, [])"

fun form_run :: "form_state \<Rightarrow> form_event list \<Rightarrow> form_state \<times> mutation_variables list" where
  "form_run st [] = (st, [])"
| "form_run st (ev # evs) =
     (let (st1, calls1) = form_step st ev; (st2, calls2) = form_run st1 evs
      in (st2, calls1 @ calls2))"

definition photo_within_limit :: "js_file option \<Rightarrow> bool" where
  "photo_within_limit p = (case p of None \<Rightarrow> True | Some f \<Rightarrow> file_size f \<le> 10485760)"

subsection \<open>Vocabulary of the specification for validation errors\<close>

text \<open>\<^verbatim>\<open>String.prototype.includes\<close>: the needle occurs somewhere in the text.\<close>

fun starts_with :: "string \<Rightarrow> string \<Rightarrow> bool" where
  "starts_with text [] = True"
| "starts_with [] (c # needle) = False"
| "starts_with (d # text) (c # needle) = (d = c \<and> starts_with text needle)"

fun js_includes :: "string \<Rightarrow> string \<Rightarrow> bool" where
  "js_includes [] needle = (needle = [])"
| "js_includes (d # text) needle = (starts_with (d # text) needle \<or> js_includes text needle)"

text \<open>
  The specification speaks of a validation error "listing the missing fields". These two
  definitions follow the specification's words, not the source: the names of the required
  fields that are empty, and an error text that names each of them.
\<close>

definition spec_missing_fields :: "form_data \<Rightarrow> string list" where
  "spec_missing_fields fd =
     (if station_city fd = '''' then [''station_city''] else [])
     @ (if station_name fd = '''' then [''station_name''] else [])
     @ (if issue_category fd = '''' then [''issue_category''] else [])
     @ (if description fd = '''' then [''description''] else [])"

definition spec_lists_missing_fields :: "form_data \<Rightarrow> string option \<Rightarrow> bool" where
  "spec_lists_missing_fields fd err =
     (case err of None \<Rightarrow> False | Some text \<Rightarrow> list_all (js_includes text) (spec_missing_fields fd))"

subsection \<open>Vocabulary of the specification for the geolocation attempt\<close>

text \<open>
  In the specification's words, not the source's: the attempt succeeds when coordinates
  are obtained, and in every other case the payload is to be submitted with latitude and
  longitude null.
\<close>

definition spec_attempt_succeeded :: "geolocation \<Rightarrow> bool" where
  "spec_attempt_succeeded geo = (case geo of GeoSuccess lat lon \<Rightarrow> True | _ \<Rightarrow> False)"

definition spec_submitted_without_coordinates :: "geolocation \<Rightarrow> form_state \<Rightarrow> bool" where
  "spec_submitted_without_coordinates geo st =
     (case snd (handleSubmit geo st) of
        [c] \<Rightarrow> map_of (reportData c) ''latitude'' = Some JNull
               \<and> map_of (reportData c) ''longitude'' = Some JNull
      | _ \<Rightarrow> False)"

subsection \<open>Sample inputs\<close>

definition sample_form :: form_data where
  "sample_form =
     \<lparr>station_city = ''Edmonton'', station_name = ''Central'',
      issue_category = ''Broken Elevator'', description = ''Elevator out of service'',
      urgency_level = ''High'', reporter_contact = ''''\<rparr>"

definition sample_photo :: "nat \<Rightarrow> js_file" where
  "sample_photo n = \<lparr>file_name = ''photo.jpg'', file_size = n\<rparr>"

section \<open>API functions\<close>

subsection \<open>handleResponse (lines 241-253)\<close>

text \<open>
  A \<^verbatim>\<open>fetch\<close> either rejects (no response at all) or resolves with a response. Of a
  response the client reads the status (\<^verbatim>\<open>res.ok\<close> is true exactly for 200 to 299), the
  status text, the content-type header and the body; \<open>parsed_json\<close> is what \<^verbatim>\<open>res.json()\<close>
  yields, \<open>None\<close> when the body is not JSON and the call throws.
\<close>

record response =
  status_code :: nat
  statusText :: string
  content_type :: "string option"
  body_text :: string
  parsed_json :: "js_value option"

datatype fetch_outcome = Responded response | Rejected string

text \<open>A thrown JavaScript error: the name of its class and its message.\<close>

record js_error =
  error_name :: string
  error_message :: string

datatype api_result = JsonResult js_value | TextResult string

definition digit_char :: "nat \<Rightarrow> char" where
  "digit_char d = ''0123456789'' ! d"

fun string_of_nat :: "nat \<Rightarrow> string" where
  "string_of_nat n =
     (if n < 10 then [digit_char n] else string_of_nat (n div 10) @ [digit_char (n mod 10)])"

declare string_of_nat.simps [simp del]

definition res_ok :: "response \<Rightarrow> bool" where
  "res_ok res = (200 \<le> status_code res \<and> status_code res \<le> 299)"

definition handleResponse :: "response \<Rightarrow> js_error + api_result" where
  "handleResponse res =
     (if \<not> res_ok res then
        (let errorDetail = body_text res in
         Inl \<lparr>error_name = ''Error'',
              error_message = ''API Error: '' @ string_of_nat (status_code res) @ '' - ''
                @ (if errorDetail \<noteq> '''' then errorDetail else statusText res)\<rparr>)
      else
        (case content_type res of
           Some contentType \<Rightarrow>
             if contentType \<noteq> '''' \<and> js_includes contentType ''application/json''
             then (case parsed_json res of
                     Some v \<Rightarrow> Inr (JsonResult v)
                   | None \<Rightarrow> Inl \<lparr>error_name = ''SyntaxError'', error_message = ''''\<rparr>)
             else Inr (TextResult (body_text res))
         | None \<Rightarrow> Inr (TextResult (body_text res))))"

subsection \<open>getReport (lines 280-283) and the report viewer (lines 1112-1131)\<close>

text \<open>
  \<open>getReport\<close> awaits the fetch and passes the response to \<open>handleResponse\<close>; a rejected
  fetch throws the network error as it is.
\<close>

definition getReport :: "fetch_outcome \<Rightarrow> js_error + api_result" where
  "getReport outcome =
     (case outcome of
        Rejected message \<Rightarrow> Inl \<lparr>error_name = ''TypeError'', error_message = message\<rparr>
      | Responded res \<Rightarrow> handleResponse res)"

text \<open>
  \<open>ReportsContent\<close> takes \<^verbatim>\<open>data\<close>, \<^verbatim>\<open>isLoading\<close> and \<^verbatim>\<open>isError\<close> from the query and
  never the error object. The line it renders for a failed query:
\<close>

definition ReportsContent_error_line :: "string \<Rightarrow> js_error + api_result \<Rightarrow> string option" where
  "ReportsContent_error_line shown_id result =
     (let isError = (case result of Inl e \<Rightarrow> True | Inr v \<Rightarrow> False) in
      if isError then Some (''Error fetching report '' @ shown_id @ ''. (Check console for API error)'')
      else None)"

text \<open>
  The specification's taxonomy has a NotFoundError surfaced distinctly from a generic
  transport failure. In the specification's words, not the source's: two failed fetches
  are surfaced distinctly when the errors are of different classes or the viewer shows
  different lines for them.
\<close>

definition spec_surfaced_distinctly :: "string \<Rightarrow> fetch_outcome \<Rightarrow> fetch_outcome \<Rightarrow> bool" where
  "spec_surfaced_distinctly shown_id a b =
     (case (getReport a, getReport b) of
        (Inl ea, Inl eb) \<Rightarrow>
          error_name ea \<noteq> error_name eb
          \<or> ReportsContent_error_line shown_id (getReport a)
            \<noteq> ReportsContent_error_line shown_id (getReport b)
      | _ \<Rightarrow> False)"

definition sample_response :: "nat \<Rightarrow> string \<Rightarrow> response" where
  "sample_response code text =
     \<lparr>status_code = code, statusText = text, content_type = Some ''application/json'',
      body_text = '''', parsed_json = None\<rparr>"

section \<open>Query cache\<close>

subsection \<open>Query keys\<close>

text \<open>
  The query keys of the source are arrays: \<^verbatim>\<open>['reports', filters]\<close> with the filters
  object (line 837), \<^verbatim>\<open>['stats']\<close> (line 928), and \<^verbatim>\<open>['reports', 'stats']\<close> in the
  invalidation of line 818.
\<close>

datatype key_part = KString string | KObject js_object

type_synonym query_key = "key_part list"

text \<open>
  Modelled from the spec: the matching of keys by the Query Cache Store of section 4.1,
  which the source does not implement but takes from the query library it imports
  (\<^verbatim>\<open>QueryClient\<close>, \<^verbatim>\<open>useQuery\<close>); only the calls are in the source. A cached key
  matches a given key when the given key is a prefix of it, strings compared by equality
  and objects by containment, which is how the library selects the queries of
  \<^verbatim>\<open>invalidateQueries({ queryKey })\<close>; an equal key matches in particular.
\<close>

definition object_contains :: "js_object \<Rightarrow> js_object \<Rightarrow> bool" where
  "object_contains a b = list_all (\<lambda>(k, v). map_of a k = Some v) b"

fun part_matches :: "key_part \<Rightarrow> key_part \<Rightarrow> bool" where
  "part_matches (KString s) (KString t) = (s = t)"
| "part_matches (KObject a) (KObject b) = object_contains a b"
| "part_matches (KString s) (KObject b) = False"
| "part_matches (KObject a) (KString t) = False"

fun partialMatchKey :: "query_key \<Rightarrow> query_key \<Rightarrow> bool" where
  "partialMatchKey key [] = True"
| "partialMatchKey [] (q # given) = False"
| "partialMatchKey (p # key) (q # given) = (part_matches p q \<and> partialMatchKey key given)"

text \<open>
  Modelled from the spec: the cache entry of section 3, absent from the source for the
  same reason: data, a status, the time of the last successful fetch, and the stale mark
  that invalidation sets.
\<close>

datatype entry_status = Idle | Loading | Success | Failure

record cache_entry =
  entry_data :: "string option"
  entry_status :: entry_status
  fetchedAt :: "nat option"
  isInvalidated :: bool

type_synonym query_cache = "query_key \<Rightarrow> cache_entry option"

text \<open>
  Modelled from the spec: \<open>invalidate\<close> of section 4.1, absent from the source. It marks
  every entry whose key matches as stale and leaves its data in place.
\<close>

definition invalidateQueries :: "query_key \<Rightarrow> query_cache \<Rightarrow> query_cache" where
  "invalidateQueries given cache =
     (\<lambda>key. if partialMatchKey key given
            then map_option (\<lambda>e. e\<lparr>isInvalidated := True\<rparr>) (cache key)
            else cache key)"

text \<open>
  Modelled from the spec: the fetch decision of \<open>read\<close> in section 4.1, absent from the
  source. A read triggers a fetch when there is no entry, the entry is in error state, it
  is marked stale, or its age exceeds the stale time.
\<close>

definition read_triggers_fetch :: "query_cache \<Rightarrow> query_key \<Rightarrow> nat \<Rightarrow> nat \<Rightarrow> bool" where
  "read_triggers_fetch cache key now staleTime =
     (case cache key of
        None \<Rightarrow> True
      | Some e \<Rightarrow>
          entry_status e = Failure \<or> isInvalidated e
          \<or> (case fetchedAt e of None \<Rightarrow> True | Some t \<Rightarrow> now - t > staleTime))"

subsection \<open>The calls of the source\<close>

text \<open>Line 837 and line 840: the dashboard's list query and its stale time.\<close>

definition DashboardContent_queryKey :: "js_object \<Rightarrow> query_key" where
  "DashboardContent_queryKey filters = [KString ''reports'', KObject filters]"

definition DashboardContent_staleTime :: nat where
  "DashboardContent_staleTime = 5000"

text \<open>Line 928 and line 930: the statistics query and its stale time.\<close>

definition AnalyticsContent_queryKey :: query_key where
  "AnalyticsContent_queryKey = [KString ''stats'']"

definition AnalyticsContent_staleTime :: nat where
  "AnalyticsContent_staleTime = 60000"

text \<open>
  Line 818: the \<^verbatim>\<open>onSuccess\<close> that \<open>HomeContent\<close> gives to the report form, which the
  mutation's own \<^verbatim>\<open>onSuccess\<close> calls after a successful create (line 607).
\<close>

definition HomeContent_onSuccess :: "query_cache \<Rightarrow> query_cache" where
  "HomeContent_onSuccess cache = invalidateQueries [KString ''reports'', KString ''stats''] cache"

text \<open>A cache in which both queries were fetched successfully at time 0.\<close>

definition sample_cache :: query_cache where
  "sample_cache =
     (\<lambda>key. if key = DashboardContent_queryKey [] \<or> key = AnalyticsContent_queryKey
            then Some \<lparr>entry_data = Some ''fetched at 0'', entry_status = Success,
                       fetchedAt = Some 0, isInvalidated = False\<rparr>
            else None)"

section \<open>DashboardContent: the client-side sort\<close>

subsection \<open>Reports and dates\<close>

text \<open>
  Of a report the sort reads \<^verbatim>\<open>created_date\<close> and \<^verbatim>\<open>urgency_level\<close>. A property that
  the object lacks reads as \<^verbatim>\<open>undefined\<close>. The value of \<^verbatim>\<open>created_date\<close> is kept by
  what \<^verbatim>\<open>new Date\<close> makes of it: \<^verbatim>\<open>undefined\<close> and a text that is no date give an
  invalid date, \<^verbatim>\<open>null\<close> gives the epoch, a date text gives its time value in
  milliseconds. The urgency field is named \<open>report_urgency_level\<close> here, the form's text
  field already being \<open>urgency_level\<close>.
\<close>

datatype date_value = DateUndefined | DateNull | DateText "int option"

record report =
  report_id :: nat
  created_date :: date_value
  report_urgency_level :: "string option"

text \<open>
  A JavaScript number that may be \<^verbatim>\<open>NaN\<close>: \<open>None\<close> is \<^verbatim>\<open>NaN\<close>. Time values and
  ranks are integers that a double holds exactly, and the sign of the difference of two
  of them, which is all the sort reads, is the sign of the exact difference.
\<close>

type_synonym js_number = "int option"

definition Date_getTime :: "date_value \<Rightarrow> js_number" where
  "Date_getTime d =
     (case d of DateUndefined \<Rightarrow> None | DateNull \<Rightarrow> Some 0 | DateText t \<Rightarrow> t)"

definition js_minus :: "js_number \<Rightarrow> js_number \<Rightarrow> js_number" where
  "js_minus x y = (case (x, y) of (Some a, Some b) \<Rightarrow> Some (a - b) | _ \<Rightarrow> None)"

definition urgencyOrder :: "string \<Rightarrow> int option" where
  "urgencyOrder = map_of [(''Critical'', 4), (''High'', 3), (''Medium'', 2), (''Low'', 1)]"

text \<open>\<^verbatim>\<open>urgencyOrder[r.urgency_level]\<close>: a key the table lacks reads as \<^verbatim>\<open>undefined\<close>,
  which the subtraction turns into \<^verbatim>\<open>NaN\<close>.\<close>

definition urgency_rank :: "report \<Rightarrow> js_number" where
  "urgency_rank r = (case report_urgency_level r of None \<Rightarrow> None | Some u \<Rightarrow> urgencyOrder u)"

subsection \<open>The comparator (lines 861-870)\<close>

text \<open>\<^verbatim>\<open>filters.sort\<close> is \<^verbatim>\<open>undefined\<close> until a sort is chosen; \<^verbatim>\<open>!sortKey\<close> also holds for
  the empty text.\<close>

definition compareReports :: "string option \<Rightarrow> report \<Rightarrow> report \<Rightarrow> js_number" where
  "compareReports sortKey a b =
     (if sortKey = None \<or> sortKey = Some '''' \<or> sortKey = Some ''created_date:desc''
      then js_minus (Date_getTime (created_date b)) (Date_getTime (created_date a))
      else if sortKey = Some ''urgency_level:desc''
      then js_minus (urgency_rank b) (urgency_rank a)
      else Some 0)"

subsection \<open>Array.prototype.sort\<close>

text \<open>
  The sort reads the comparator through \<open>SortCompare\<close>, which takes a \<^verbatim>\<open>NaN\<close> result as
  \<open>+0\<close>.
\<close>

definition SortCompare :: "('a \<Rightarrow> 'a \<Rightarrow> js_number) \<Rightarrow> 'a \<Rightarrow> 'a \<Rightarrow> int" where
  "SortCompare comparefn x y = (case comparefn x y of None \<Rightarrow> 0 | Some v \<Rightarrow> v)"

text \<open>
  The language fixes the result only for a consistent comparator: one that never yields
  \<^verbatim>\<open>NaN\<close> on the elements of the array and whose "equal", "less" and "greater" are
  reflexive, symmetric and transitive as below. The result is then the stable sorted
  arrangement, whatever the engine, given here by stable insertion. For any other
  comparator the order is left to the engine.
\<close>

definition consistent_on :: "('a \<Rightarrow> 'a \<Rightarrow> js_number) \<Rightarrow> 'a list \<Rightarrow> bool" where
  "consistent_on comparefn xs =
     (\<forall>a\<in>set xs. \<forall>b\<in>set xs. \<forall>c\<in>set xs.
        comparefn a b \<noteq> None
        \<and> SortCompare comparefn a a = 0
        \<and> (SortCompare comparefn a b = 0 \<longrightarrow> SortCompare comparefn b a = 0)
        \<and> (SortCompare comparefn a b = 0 \<and> SortCompare comparefn b c = 0
             \<longrightarrow> SortCompare comparefn a c = 0)
        \<and> (SortCompare comparefn a b < 0 \<and> SortCompare comparefn b c < 0
             \<longrightarrow> SortCompare comparefn a c < 0)
        \<and> (0 < SortCompare comparefn a b \<and> 0 < SortCompare comparefn b c
             \<longrightarrow> 0 < SortCompare comparefn a c))"

fun sort_insert :: "('a \<Rightarrow> 'a \<Rightarrow> js_number) \<Rightarrow> 'a \<Rightarrow> 'a list \<Rightarrow> 'a list" where
  "sort_insert comparefn x [] = [x]"
| "sort_insert comparefn x (y # ys) =
     (if SortCompare comparefn x y \<le> 0 then x # y # ys
      else y # sort_insert comparefn x ys)"

definition stable_sort :: "('a \<Rightarrow> 'a \<Rightarrow> js_number) \<Rightarrow> 'a list \<Rightarrow> 'a list" where
  "stable_sort comparefn xs = foldr (sort_insert comparefn) xs []"

text \<open>
  Where the language leaves the order open, the model follows the V8 engine (Chrome, Edge,
  Node.js). For an array of fewer than 64 elements V8 takes the longest run at the start
  of the array, non-descending or strictly descending, reverses it when it is descending,
  and then inserts each further element at the place a binary search over the sorted part
  finds. \<open>extend_run\<close> counts the elements that continue a run after its second element.
\<close>

fun extend_run :: "('a \<Rightarrow> 'a \<Rightarrow> js_number) \<Rightarrow> bool \<Rightarrow> 'a \<Rightarrow> 'a list \<Rightarrow> nat" where
  "extend_run comparefn isDescending previousElement [] = 0"
| "extend_run comparefn isDescending previousElement (currentElement # rest) =
     (let order = SortCompare comparefn currentElement previousElement in
      if (if isDescending then 0 \<le> order else order < 0) then 0
      else Suc (extend_run comparefn isDescending currentElement rest))"

text \<open>The run, made ascending, and the elements after it.\<close>

fun CountAndMakeRun :: "('a \<Rightarrow> 'a \<Rightarrow> js_number) \<Rightarrow> 'a list \<Rightarrow> 'a list \<times> 'a list" where
  "CountAndMakeRun comparefn [] = ([], [])"
| "CountAndMakeRun comparefn [x] = ([x], [])"
| "CountAndMakeRun comparefn (elementHigh # elementLow # rest) =
     (let isDescending = SortCompare comparefn elementLow elementHigh < 0;
          runLength = extend_run comparefn isDescending elementLow rest;
          run = elementHigh # elementLow # take runLength rest
      in (if isDescending then rev run else run, drop runLength rest))"

text \<open>
  The binary search keeps the pivot after every element before \<open>left\<close> and before every
  element from \<open>right\<close> on; an element that compares as equal sends the search to the
  right.
\<close>

function binary_search ::
  "('a \<Rightarrow> 'a \<Rightarrow> js_number) \<Rightarrow> 'a \<Rightarrow> 'a list \<Rightarrow> nat \<Rightarrow> nat \<Rightarrow> nat" where
  "binary_search comparefn pivot work left right =
     (if left < right
      then (let mid = left + (right - left) div 2 in
            if SortCompare comparefn pivot (work ! mid) < 0
            then binary_search comparefn pivot work left mid
            else binary_search comparefn pivot work (mid + 1) right)
      else left)"
  by pat_completeness auto
termination
  by (relation "measure (\<lambda>(comparefn, pivot, work, left, right). right - left)") auto

declare binary_search.simps [simp del]

definition insert_pivot :: "('a \<Rightarrow> 'a \<Rightarrow> js_number) \<Rightarrow> 'a list \<Rightarrow> 'a \<Rightarrow> 'a list" where
  "insert_pivot comparefn work pivot =
     (let left = binary_search comparefn pivot work 0 (length work)
      in take left work @ [pivot] @ drop left work)"

definition BinaryInsertionSort ::
  "('a \<Rightarrow> 'a \<Rightarrow> js_number) \<Rightarrow> 'a list \<Rightarrow> 'a list \<Rightarrow> 'a list" where
  "BinaryInsertionSort comparefn run rest = foldl (insert_pivot comparefn) run rest"

definition sort_short :: "('a \<Rightarrow> 'a \<Rightarrow> js_number) \<Rightarrow> 'a list \<Rightarrow> 'a list" where
  "sort_short comparefn xs =
     (let (run, rest) = CountAndMakeRun comparefn xs in BinaryInsertionSort comparefn run rest)"

text \<open>A comparator that orders the elements of a set as the key function \<open>f\<close> does.\<close>

definition key_order :: "('a \<Rightarrow> 'a \<Rightarrow> js_number) \<Rightarrow> ('a \<Rightarrow> int) \<Rightarrow> 'a set \<Rightarrow> bool" where
  "key_order comparefn f S = (\<forall>a\<in>S. \<forall>b\<in>S. (SortCompare comparefn a b < 0) = (f a < f b))"

text \<open>
  For 64 elements or more V8 merges several runs. The result is then given only where the
  language fixes it, for a consistent comparator; \<open>None\<close> stands for an order that this
  model does not determine.
\<close>

definition Array_sort :: "('a \<Rightarrow> 'a \<Rightarrow> js_number) \<Rightarrow> 'a list \<Rightarrow> 'a list option" where
  "Array_sort comparefn xs =
     (if length xs < 64 then Some (sort_short comparefn xs)
      else if consistent_on comparefn xs then Some (stable_sort comparefn xs)
      else None)"

subsection \<open>sortedReports (lines 857-871)\<close>

text \<open>The argument \<open>None\<close> is the \<^verbatim>\<open>undefined\<close> data of a query that has not answered yet.\<close>

definition sortedReports :: "report list option \<Rightarrow> string option \<Rightarrow> report list option" where
  "sortedReports reports sortKey =
     (case reports of None \<Rightarrow> Some [] | Some rs \<Rightarrow> Array_sort (compareReports sortKey) rs)"

subsection \<open>Vocabulary of the claims about the sort\<close>


definition rank_value :: "report \<Rightarrow> int" where
  "rank_value r = (case urgency_rank r of Some v \<Rightarrow> v | None \<Rightarrow> 0)"


text \<open>
  In the specification's words, not the source's: the ordinal ranks are non-increasing,
  read over the entries that have a rank, so that an entry without one cannot by itself
  break the order.
\<close>

fun spec_ranks_non_increasing :: "report list \<Rightarrow> bool" where
  "spec_ranks_non_increasing [] = True"
| "spec_ranks_non_increasing (r # rs) =
     (list_all (\<lambda>r'. case (urgency_rank r, urgency_rank r') of
                        (Some v, Some v') \<Rightarrow> v' \<le> v
                      | _ \<Rightarrow> True) rs
      \<and> spec_ranks_non_increasing rs)"

definition sample_report :: "nat \<Rightarrow> date_value \<Rightarrow> string \<Rightarrow> report" where
  "sample_report n d u = \<lparr>report_id = n, created_date = d, report_urgency_level = Some u\<rparr>"

definition sample_report_without_level :: "nat \<Rightarrow> date_value \<Rightarrow> report" where
  "sample_report_without_level n d =
     \<lparr>report_id = n, created_date = d, report_urgency_level = None\<rparr>"

section \<open>AnalyticsContent: derived scalars\<close>

subsection \<open>Aggregate statistics (lines 968-970)\<close>

text \<open>
  Of the statistics object the derived scalars read \<^verbatim>\<open>total\<close> and the counts of
  \<^verbatim>\<open>by_status\<close>; a field that is absent reads as \<^verbatim>\<open>undefined\<close>, here \<open>None\<close>, and
  \<^verbatim>\<open>|| 0\<close> turns both an absent and a zero count into \<open>0\<close>. The field \<^verbatim>\<open>total\<close> is
  named \<open>stats_total\<close>.
\<close>

record aggregate_stats =
  stats_total :: "nat option"
  by_status :: "(string \<times> nat) list option"

definition totalReports :: "aggregate_stats \<Rightarrow> nat" where
  "totalReports stats = (case stats_total stats of None \<Rightarrow> 0 | Some n \<Rightarrow> n)"

definition status_count :: "aggregate_stats \<Rightarrow> string \<Rightarrow> nat" where
  "status_count stats label =
     (case by_status stats of
        None \<Rightarrow> 0
      | Some counts \<Rightarrow> (case map_of counts label of None \<Rightarrow> 0 | Some n \<Rightarrow> n))"

definition resolvedCount :: "aggregate_stats \<Rightarrow> nat" where
  "resolvedCount stats = status_count stats ''Resolved''"

definition pendingCount :: "aggregate_stats \<Rightarrow> nat" where
  "pendingCount stats = status_count stats ''Submitted'' + status_count stats ''Under Review''"

subsection \<open>Double-precision arithmetic\<close>

text \<open>
  JavaScript numbers are IEEE 754 binary64 values, and every arithmetic operation returns
  the exact result rounded to the nearest such value, ties to the even significand. A
  finite double is a rational, so the rounding is a function on \<^typ>\<open>rat\<close>: a non-zero
  \<open>x\<close> with \<open>2^k \<le> |x| < 2^(k+1)\<close> is rounded to a multiple of \<open>2^(k-52)\<close>. Overflow and
  subnormal numbers are left out; the quotient of two counts below \<open>2^53\<close> and its product
  with 100 are far from both.
\<close>

definition pow2 :: "int \<Rightarrow> rat" where
  "pow2 e = (if 0 \<le> e then 2 ^ nat e else 1 / 2 ^ nat (- e))"

definition round_half_even :: "rat \<Rightarrow> int" where
  "round_half_even x =
     (let f = \<lfloor>x\<rfloor>; d = x - of_int f in
      if d < 1 / 2 then f else if 1 / 2 < d then f + 1 else if even f then f else f + 1)"

text \<open>The binary exponent \<open>k\<close> of a positive rational, from the bit lengths of its
  numerator and denominator.\<close>

definition ilog2 :: "rat \<Rightarrow> int" where
  "ilog2 x =
     (let (a, b) = quotient_of x;
          d = int (floorlog 2 (nat a)) - int (floorlog 2 (nat b))
      in if pow2 d \<le> x then d else d - 1)"

definition to_double :: "rat \<Rightarrow> rat" where
  "to_double x =
     (if x = 0 then 0
      else (let e = ilog2 \<bar>x\<bar> - 52 in of_int (round_half_even (x / pow2 e)) * pow2 e))"

definition js_divide :: "rat \<Rightarrow> rat \<Rightarrow> rat" where
  "js_divide x y = to_double (x / y)"

definition js_times :: "rat \<Rightarrow> rat \<Rightarrow> rat" where
  "js_times x y = to_double (x * y)"

subsection \<open>Number.prototype.toFixed(1)\<close>

text \<open>
  For a double \<open>x \<ge> 0\<close> below \<open>10^21\<close>, \<^verbatim>\<open>x.toFixed(1)\<close> takes the integer \<open>n\<close> for which
  \<open>n / 10 - x\<close> is closest to zero, the larger one of two, and prints it with one digit
  after the point.
\<close>

definition decimal1 :: "nat \<Rightarrow> string" where
  "decimal1 n = string_of_nat (n div 10) @ ''.'' @ [digit_char (n mod 10)]"

definition toFixed1 :: "rat \<Rightarrow> string" where
  "toFixed1 x = decimal1 (nat \<lfloor>10 * x + 1 / 2\<rfloor>)"

subsection \<open>completionRate (line 972)\<close>

text \<open>The result is the text that \<^verbatim>\<open>toFixed\<close> returns, or the number \<open>0\<close>.\<close>

datatype rate_value = RateNumber rat | RateText string

definition completionRate :: "aggregate_stats \<Rightarrow> rate_value" where
  "completionRate stats =
     (if totalReports stats > 0
      then RateText (toFixed1 (js_times
             (js_divide (of_nat (resolvedCount stats)) (of_nat (totalReports stats))) 100))
      else RateNumber 0)"

text \<open>
  In the specification's words, not the source's: the value \<open>resolved / total * 100\<close>,
  taken exactly, rounded to one decimal. Every one-decimal numeral nearest to the exact
  value counts as its rounding, so at a tie both neighbours do.
\<close>

definition spec_one_decimal_roundings :: "rat \<Rightarrow> string list" where
  "spec_one_decimal_roundings exact =
     (let lo = nat \<lfloor>10 * exact\<rfloor> in
      (if 10 * exact - of_nat lo \<le> 1 / 2 then [decimal1 lo] else [])
      @ (if of_nat (Suc lo) - 10 * exact \<le> 1 / 2 then [decimal1 (Suc lo)] else []))"

definition sample_stats :: "nat \<Rightarrow> nat \<Rightarrow> aggregate_stats" where
  "sample_stats n resolved = \<lparr>stats_total = Some n, by_status = Some [(''Resolved'', resolved)]\<rparr>"

section \<open>Properties of ReportForm\<close>

lemma handlePhotoChange_keeps_limit:
  "photo_within_limit (photo st) \<Longrightarrow> photo_within_limit (photo (handlePhotoChange file st))"
  by (auto simp: handlePhotoChange_def photo_within_limit_def split: option.splits)

lemma handleSubmit_photo: "photo (fst (handleSubmit geo st)) = photo st"
  by (auto simp: handleSubmit_def Let_def split: geolocation.splits)

lemma handleSubmit_calls_photo:
  "c \<in> set (snd (handleSubmit geo st)) \<Longrightarrow> attachedPhoto c = photo st"
  by (auto simp: handleSubmit_def Let_def split: geolocation.splits if_splits)

lemma form_step_keeps_limit:
  assumes "photo_within_limit (photo st)"
  shows "photo_within_limit (photo (fst (form_step st ev)))"
proof (cases ev)
  case (PhotoChange f0)
  then show ?thesis using assms by (simp add: handlePhotoChange_keeps_limit)
next
  case (Submit geo)
  then show ?thesis using assms by (simp add: handleSubmit_photo)
next
  case MutationSucceeded
  then show ?thesis by (simp add: mutation_onSuccess_def photo_within_limit_def)
qed (use assms in \<open>simp_all add: mutation_onError_def\<close>)

lemma form_step_calls_limit:
  "photo_within_limit (photo st) \<Longrightarrow> c \<in> set (snd (form_step st ev))
   \<Longrightarrow> photo_within_limit (attachedPhoto c)"
  by (cases ev) (auto simp: handleSubmit_calls_photo)

lemma form_run_calls_limit:
  "photo_within_limit (photo st) \<Longrightarrow> c \<in> set (snd (form_run st evs))
   \<Longrightarrow> photo_within_limit (attachedPhoto c)"
proof (induction evs arbitrary: st)
  case Nil
  then show ?case by simp
next
  case (Cons ev evs)
  obtain st1 calls1 where s: "form_step st ev = (st1, calls1)" by (cases "form_step st ev")
  obtain st2 calls2 where r: "form_run st1 evs = (st2, calls2)" by (cases "form_run st1 evs")
  have inv1: "photo_within_limit (photo st1)"
    using form_step_keeps_limit [OF Cons.prems(1), of ev] s by simp
  from Cons.prems(2) s r have "c \<in> set calls1 \<or> c \<in> set calls2" by simp
  then show ?case
  proof
    assume "c \<in> set calls1"
    then show ?thesis using form_step_calls_limit [OF Cons.prems(1), where c = c and ev = ev] s by simp
  next
    assume "c \<in> set calls2"
    then show ?thesis using Cons.IH [OF inv1] r by simp
  qed
qed


lemma mutationFn_file_part:
  "(key, FilePart f) \<in> set (mutationFn vars) \<Longrightarrow> attachedPhoto vars = Some f"
  by (auto simp: mutationFn_def split: option.splits)

lemma handleSubmit_invalid:
  assumes "station_city (formData st) = '''' \<or> station_name (formData st) = ''''
           \<or> issue_category (formData st) = '''' \<or> description (formData st) = ''''"
  shows "handleSubmit geo st =
           (st\<lparr>error := Some ''Please fill in all required fields (marked with *).''\<rparr>, [])"
  using assms by (simp add: handleSubmit_def Let_def)

lemma handleSubmit_valid:
  assumes "station_city (formData st) \<noteq> ''''" and "station_name (formData st) \<noteq> ''''"
    and "issue_category (formData st) \<noteq> ''''" and "description (formData st) \<noteq> ''''"
  shows "handleSubmit geo st =
           (st\<lparr>error := None\<rparr>,
            case geo of
              GeoUnavailable \<Rightarrow>
                [\<lparr>reportData = reportPayload (formData st) JNull JNull, attachedPhoto = photo st\<rparr>]
            | GeoSuccess lat lon \<Rightarrow>
                [\<lparr>reportData = reportPayload (formData st) (JNumber lat) (JNumber lon),
                  attachedPhoto = photo st\<rparr>]
            | GeoError \<Rightarrow>
                [\<lparr>reportData = reportPayload (formData st) JNull JNull, attachedPhoto = photo st\<rparr>]
            | GeoPending \<Rightarrow> [])"
  using assms by (simp add: handleSubmit_def Let_def split: geolocation.splits)

lemma reportPayload_coordinates:
  "map_of (reportPayload fd lat lon) ''latitude'' = Some lat"
  "map_of (reportPayload fd lat lon) ''longitude'' = Some lon"
  by (simp_all add: reportPayload_def entries_of_def)

lemma reportPayload_keys:
  "map fst (reportPayload fd lat lon) =
     [''station_city'', ''station_name'', ''issue_category'', ''description'', ''urgency_level'',
      ''reporter_contact'', ''status'', ''latitude'', ''longitude'']"
  by (simp add: reportPayload_def entries_of_def)

subsection \<open>Photo selection\<close>

text \<open>
  C10. Selecting a file larger than the ceiling sets the size-limit error and leaves the
  rest of the state, in particular the previously selected photo, as it was; selecting a
  file within the ceiling replaces the photo and clears the error.
\<close>

theorem handlePhotoChange_frame:
  "(10485760 < file_size f \<longrightarrow>
      handlePhotoChange (Some f) st = st\<lparr>error := Some ''File size must be less than 10MB''\<rparr>
      \<and> photo (handlePhotoChange (Some f) st) = photo st)
   \<and> (file_size f \<le> 10485760 \<longrightarrow>
      handlePhotoChange (Some f) st = st\<lparr>photo := Some f, error := None\<rparr>)"
  by (simp add: handlePhotoChange_def)

theorem handlePhotoChange_frame_witness:
  "handlePhotoChange (Some \<lparr>file_name = ''big.jpg'', file_size = 10485761\<rparr>)
     \<lparr>formData = emptyFormData, photo = Some \<lparr>file_name = ''old.jpg'', file_size = 2048\<rparr>,
      error = None\<rparr>
   = \<lparr>formData = emptyFormData, photo = Some \<lparr>file_name = ''old.jpg'', file_size = 2048\<rparr>,
      error = Some ''File size must be less than 10MB''\<rparr>
   \<and> handlePhotoChange (Some \<lparr>file_name = ''new.jpg'', file_size = 4096\<rparr>)
     \<lparr>formData = emptyFormData, photo = Some \<lparr>file_name = ''old.jpg'', file_size = 2048\<rparr>,
      error = Some ''File size must be less than 10MB''\<rparr>
   = \<lparr>formData = emptyFormData, photo = Some \<lparr>file_name = ''new.jpg'', file_size = 4096\<rparr>,
      error = None\<rparr>"
  using handlePhotoChange_frame
          [of "\<lparr>file_name = ''big.jpg'', file_size = 10485761\<rparr>"
              "\<lparr>formData = emptyFormData,
                photo = Some \<lparr>file_name = ''old.jpg'', file_size = 2048\<rparr>, error = None\<rparr>"]
        handlePhotoChange_frame
          [of "\<lparr>file_name = ''new.jpg'', file_size = 4096\<rparr>"
              "\<lparr>formData = emptyFormData,
                photo = Some \<lparr>file_name = ''old.jpg'', file_size = 2048\<rparr>,
                error = Some ''File size must be less than 10MB''\<rparr>"]
  by simp

text \<open>
  C3. A photo of exactly 10,485,760 bytes is accepted: it becomes the selected photo and
  no error is shown. A photo of more than 10,485,760 bytes is rejected with the size-limit
  error, selecting it sends nothing, and whatever the user does afterwards, starting from
  the initial form, no request body ever carries that file.
\<close>

theorem photo_size_ceiling:
  "(file_size f = 10485760 \<longrightarrow>
      photo (handlePhotoChange (Some f) st) = Some f
      \<and> error (handlePhotoChange (Some f) st) = None)
   \<and> (10485760 < file_size f \<longrightarrow>
      error (handlePhotoChange (Some f) st) = Some ''File size must be less than 10MB''
      \<and> snd (form_step st (PhotoChange (Some f))) = []
      \<and> (\<forall>evs c key. c \<in> set (snd (form_run initialFormState evs))
            \<longrightarrow> (key, FilePart f) \<notin> set (mutationFn c)))"
proof (intro conjI impI allI)
  assume big: "10485760 < file_size f"
  show "error (handlePhotoChange (Some f) st) = Some ''File size must be less than 10MB''"
    using big by (simp add: handlePhotoChange_def)
  show "snd (form_step st (PhotoChange (Some f))) = []" by simp
  fix evs c key
  assume c: "c \<in> set (snd (form_run initialFormState evs))"
  have "photo_within_limit (photo initialFormState)"
    by (simp add: initialFormState_def photo_within_limit_def)
  then have "photo_within_limit (attachedPhoto c)"
    using c by (rule form_run_calls_limit)
  then have "attachedPhoto c \<noteq> Some f"
    using big by (auto simp: photo_within_limit_def)
  then show "(key, FilePart f) \<notin> set (mutationFn c)"
    using mutationFn_file_part by blast
qed (simp_all add: handlePhotoChange_def)


theorem photo_size_ceiling_witness:
  "photo (handlePhotoChange (Some (sample_photo 10485760)) initialFormState)
     = Some (sample_photo 10485760)
   \<and> error (handlePhotoChange (Some (sample_photo 10485760)) initialFormState) = None
   \<and> error (handlePhotoChange (Some (sample_photo 10485761)) initialFormState)
     = Some ''File size must be less than 10MB''
   \<and> \<lparr>reportData = reportPayload sample_form JNull JNull,
       attachedPhoto = Some (sample_photo 10485760)\<rparr>
     \<in> set (snd (form_run initialFormState
          [EditForm sample_form, PhotoChange (Some (sample_photo 10485760)),
           PhotoChange (Some (sample_photo 10485761)), Submit GeoError]))
   \<and> (''photo'', FilePart (sample_photo 10485761))
     \<notin> set (mutationFn \<lparr>reportData = reportPayload sample_form JNull JNull,
                         attachedPhoto = Some (sample_photo 10485760)\<rparr>)"
proof -
  have sizes: "file_size (sample_photo 10485760) = 10485760"
    "10485760 < file_size (sample_photo 10485761)"
    by (simp_all add: sample_photo_def)
  have run: "\<lparr>reportData = reportPayload sample_form JNull JNull,
       attachedPhoto = Some (sample_photo 10485760)\<rparr>
     \<in> set (snd (form_run initialFormState
          [EditForm sample_form, PhotoChange (Some (sample_photo 10485760)),
           PhotoChange (Some (sample_photo 10485761)), Submit GeoError]))"
    by (simp add: initialFormState_def sample_form_def sample_photo_def handlePhotoChange_def
                  handleSubmit_def Let_def)
  show ?thesis
    using photo_size_ceiling [of "sample_photo 10485760" initialFormState]
          photo_size_ceiling [of "sample_photo 10485761" initialFormState]
          sizes run
    by blast
qed

subsection \<open>Validation\<close>

text \<open>
  C2, as the specification states it, fails: with only the description missing, the error
  that \<open>handleSubmit\<close> sets does not name the missing field.
\<close>

theorem validation_error_lists_fields_counterexample:
  "\<not> spec_lists_missing_fields (sample_form\<lparr>description := ''''\<rparr>)
       (error (fst (handleSubmit GeoUnavailable
          \<lparr>formData = sample_form\<lparr>description := ''''\<rparr>, photo = None, error = None\<rparr>)))"
  by (simp add: spec_lists_missing_fields_def spec_missing_fields_def sample_form_def
                handleSubmit_def Let_def)

text \<open>
  C2, amended. When at least one of station_city, station_name, issue_category and
  description is empty, submission stops at once with one fixed validation message, the
  same whichever fields are missing; the rest of the form state is kept, no mutation is
  started and no request body is handed to the transport, whatever the geolocation
  capability would have answered.
\<close>

theorem handleSubmit_validation:
  assumes "station_city (formData st) = '''' \<or> station_name (formData st) = ''''
           \<or> issue_category (formData st) = '''' \<or> description (formData st) = ''''"
  shows "handleSubmit geo st =
           (st\<lparr>error := Some ''Please fill in all required fields (marked with *).''\<rparr>, [])
         \<and> submitted_bodies geo st = []"
  using assms by (simp add: submitted_bodies_def handleSubmit_invalid)

theorem handleSubmit_validation_witness:
  "handleSubmit (GeoSuccess 53 (-113))
     \<lparr>formData = sample_form\<lparr>description := ''''\<rparr>, photo = None, error = None\<rparr>
   = (\<lparr>formData = sample_form\<lparr>description := ''''\<rparr>, photo = None,
       error = Some ''Please fill in all required fields (marked with *).''\<rparr>, [])
   \<and> submitted_bodies (GeoSuccess 53 (-113))
       \<lparr>formData = sample_form\<lparr>description := ''''\<rparr>, photo = None, error = None\<rparr> = []"
  using handleSubmit_validation
          [of "\<lparr>formData = sample_form\<lparr>description := ''''\<rparr>, photo = None, error = None\<rparr>"
              "GeoSuccess 53 (-113)"]
  by simp


subsection \<open>Geolocation\<close>

text \<open>
  C4, as the specification states it, fails: when the browser has a geolocation capability
  but calls neither callback (the request is made without a timeout, so an unanswered
  permission prompt leaves it open), the attempt has not succeeded and yet nothing is
  submitted.
\<close>

theorem geolocation_always_submits_counterexample:
  "\<not> spec_attempt_succeeded GeoPending
   \<and> \<not> spec_submitted_without_coordinates GeoPending
         \<lparr>formData = sample_form, photo = None, error = None\<rparr>
   \<and> snd (handleSubmit GeoPending \<lparr>formData = sample_form, photo = None, error = None\<rparr>) = []"
  by (simp add: spec_attempt_succeeded_def spec_submitted_without_coordinates_def
                handleSubmit_def Let_def sample_form_def)

text \<open>
  C4, amended. For a form that passes validation: when the geolocation capability is
  unavailable or the attempt reports failure, exactly one payload is submitted and its
  latitude and longitude are null; when the attempt reports success, exactly one payload
  is submitted and it carries the coordinates; as long as the browser has called neither
  callback, nothing is submitted; in no case is more than one payload submitted, and in
  every case the form state afterwards is the old one with the error cleared, so the
  geolocation attempt never shows an error.
\<close>

theorem handleSubmit_geolocation:
  assumes "station_city (formData st) \<noteq> ''''" and "station_name (formData st) \<noteq> ''''"
    and "issue_category (formData st) \<noteq> ''''" and "description (formData st) \<noteq> ''''"
  shows "(geo = GeoUnavailable \<or> geo = GeoError \<longrightarrow>
            (\<exists>c. snd (handleSubmit geo st) = [c]
                 \<and> map_of (reportData c) ''latitude'' = Some JNull
                 \<and> map_of (reportData c) ''longitude'' = Some JNull
                 \<and> reportData c = reportPayload (formData st) JNull JNull
                 \<and> attachedPhoto c = photo st))
         \<and> (\<forall>lat lon. geo = GeoSuccess lat lon \<longrightarrow>
            (\<exists>c. snd (handleSubmit geo st) = [c]
                 \<and> map_of (reportData c) ''latitude'' = Some (JNumber lat)
                 \<and> map_of (reportData c) ''longitude'' = Some (JNumber lon)
                 \<and> reportData c = reportPayload (formData st) (JNumber lat) (JNumber lon)
                 \<and> attachedPhoto c = photo st))
         \<and> (geo = GeoPending \<longrightarrow> snd (handleSubmit geo st) = [])
         \<and> length (snd (handleSubmit geo st)) \<le> 1
         \<and> fst (handleSubmit geo st) = st\<lparr>error := None\<rparr>
         \<and> error (fst (handleSubmit geo st)) = None"
proof -
  note hs = handleSubmit_valid [OF assms]
  show ?thesis
    by (cases geo) (simp_all add: hs reportPayload_coordinates)
qed

theorem handleSubmit_geolocation_witness:
  "(\<exists>c. snd (handleSubmit GeoError \<lparr>formData = sample_form, photo = None, error = Some ''old''\<rparr>)
          = [c]
        \<and> map_of (reportData c) ''latitude'' = Some JNull
        \<and> map_of (reportData c) ''longitude'' = Some JNull
        \<and> reportData c = reportPayload sample_form JNull JNull
        \<and> attachedPhoto c = None)
   \<and> (\<exists>c. snd (handleSubmit (GeoSuccess 53 (-113))
                 \<lparr>formData = sample_form, photo = None, error = Some ''old''\<rparr>) = [c]
        \<and> map_of (reportData c) ''latitude'' = Some (JNumber 53)
        \<and> map_of (reportData c) ''longitude'' = Some (JNumber (-113)))
   \<and> snd (handleSubmit GeoPending \<lparr>formData = sample_form, photo = None, error = Some ''old''\<rparr>)
       = []
   \<and> error (fst (handleSubmit GeoError
                 \<lparr>formData = sample_form, photo = None, error = Some ''old''\<rparr>)) = None"
proof -
  have valid: "station_city (formData \<lparr>formData = sample_form, photo = None, error = Some ''old''\<rparr>) \<noteq> ''''"
    "station_name (formData \<lparr>formData = sample_form, photo = None, error = Some ''old''\<rparr>) \<noteq> ''''"
    "issue_category (formData \<lparr>formData = sample_form, photo = None, error = Some ''old''\<rparr>) \<noteq> ''''"
    "description (formData \<lparr>formData = sample_form, photo = None, error = Some ''old''\<rparr>) \<noteq> ''''"
    by (simp_all add: sample_form_def)
  show ?thesis
    using handleSubmit_geolocation [OF valid, of GeoError]
          handleSubmit_geolocation [OF valid, of "GeoSuccess 53 (-113)"]
          handleSubmit_geolocation [OF valid, of GeoPending]
    by simp blast
qed

subsection \<open>The multipart body\<close>

lemma mutationFn_keys:
  "fst ` set (mutationFn vars) \<subseteq>
     fst ` {e \<in> set (reportData vars). snd e \<noteq> JNull} \<union> {''photo''}"
  by (auto simp: mutationFn_def split: option.splits) force

text \<open>
  C9. The body built for create never holds a part made from a null value, so null is
  never sent as text; a field whose value is null has no part at all in the body (the key
  \<open>photo\<close> apart, which is the file's own part); and when the geolocation capability is
  unavailable or the attempt fails, a valid form yields exactly one body, in which neither
  \<open>latitude\<close> nor \<open>longitude\<close> occurs.
\<close>

theorem mutationFn_omits_null:
  "(\<forall>key. (key, Field JNull) \<notin> set (mutationFn vars))
   \<and> (distinct (map fst (reportData vars)) \<and> (key, JNull) \<in> set (reportData vars)
        \<and> key \<noteq> ''photo'' \<longrightarrow> key \<notin> fst ` set (mutationFn vars))
   \<and> (station_city (formData st) \<noteq> '''' \<and> station_name (formData st) \<noteq> ''''
        \<and> issue_category (formData st) \<noteq> '''' \<and> description (formData st) \<noteq> ''''
        \<and> (geo = GeoUnavailable \<or> geo = GeoError) \<longrightarrow>
        (\<exists>body. submitted_bodies geo st = [body]
               \<and> ''latitude'' \<notin> fst ` set body \<and> ''longitude'' \<notin> fst ` set body
               \<and> ''status'' \<in> fst ` set body))"
proof (intro conjI impI allI)
  fix k
  show "(k, Field JNull) \<notin> set (mutationFn vars)"
    by (auto simp: mutationFn_def split: option.splits)
next
  assume a: "distinct (map fst (reportData vars)) \<and> (key, JNull) \<in> set (reportData vars)
        \<and> key \<noteq> ''photo''"
  show "key \<notin> fst ` set (mutationFn vars)"
  proof
    assume "key \<in> fst ` set (mutationFn vars)"
    then have "key \<in> fst ` {e \<in> set (reportData vars). snd e \<noteq> JNull}"
      using mutationFn_keys [of vars] a by auto
    then obtain v where v: "(key, v) \<in> set (reportData vars)" "v \<noteq> JNull" by auto
    from a v(1) have "v = JNull"
      by (meson eq_key_imp_eq_value)
    with v(2) show False by simp
  qed
next
  assume a: "station_city (formData st) \<noteq> '''' \<and> station_name (formData st) \<noteq> ''''
        \<and> issue_category (formData st) \<noteq> '''' \<and> description (formData st) \<noteq> ''''
        \<and> (geo = GeoUnavailable \<or> geo = GeoError)"
  then have hs: "snd (handleSubmit geo st) =
      [\<lparr>reportData = reportPayload (formData st) JNull JNull, attachedPhoto = photo st\<rparr>]"
    using handleSubmit_valid [of st geo] by auto
  show "\<exists>body. submitted_bodies geo st = [body]
               \<and> ''latitude'' \<notin> fst ` set body \<and> ''longitude'' \<notin> fst ` set body
               \<and> ''status'' \<in> fst ` set body"
    by (cases "photo st")
       (simp_all add: submitted_bodies_def hs mutationFn_def reportPayload_def entries_of_def)
qed

theorem mutationFn_omits_null_witness:
  "(''latitude'', Field JNull)
     \<notin> set (mutationFn \<lparr>reportData = reportPayload sample_form JNull JNull,
                         attachedPhoto = None\<rparr>)
   \<and> ''latitude''
     \<notin> fst ` set (mutationFn \<lparr>reportData = reportPayload sample_form JNull JNull,
                               attachedPhoto = None\<rparr>)
   \<and> (\<exists>body. submitted_bodies GeoError \<lparr>formData = sample_form, photo = None, error = None\<rparr>
              = [body]
        \<and> ''latitude'' \<notin> fst ` set body \<and> ''longitude'' \<notin> fst ` set body
        \<and> ''status'' \<in> fst ` set body)"
proof -
  have d: "distinct (map fst (reportData \<lparr>reportData = reportPayload sample_form JNull JNull,
                         attachedPhoto = None\<rparr>))"
    by (simp add: reportPayload_keys)
  have m: "(''latitude'', JNull) \<in> set (reportData
             \<lparr>reportData = reportPayload sample_form JNull JNull, attachedPhoto = None\<rparr>)"
    by (simp add: reportPayload_def)
  have v: "station_city (formData \<lparr>formData = sample_form, photo = None, error = None\<rparr>) \<noteq> ''''
        \<and> station_name (formData \<lparr>formData = sample_form, photo = None, error = None\<rparr>) \<noteq> ''''
        \<and> issue_category (formData \<lparr>formData = sample_form, photo = None, error = None\<rparr>) \<noteq> ''''
        \<and> description (formData \<lparr>formData = sample_form, photo = None, error = None\<rparr>) \<noteq> ''''"
    by (simp add: sample_form_def)
  show ?thesis
    using mutationFn_omits_null
            [of "\<lparr>reportData = reportPayload sample_form JNull JNull, attachedPhoto = None\<rparr>"
                "''latitude''" "\<lparr>formData = sample_form, photo = None, error = None\<rparr>" GeoError]
          d m v
    by blast
qed


section \<open>Properties of the API functions\<close>

text \<open>
  C7, as the specification states it, fails: a 404 answer and a 500 answer to the
  single-record fetch raise errors of the same class, and the viewer shows the same line
  for both.
\<close>

theorem not_found_surfaced_distinctly_counterexample:
  "\<not> spec_surfaced_distinctly ''123''
       (Responded (sample_response 404 ''Not Found''))
       (Responded (sample_response 500 ''Internal Server Error''))"
  by (simp add: spec_surfaced_distinctly_def getReport_def handleResponse_def res_ok_def
                sample_response_def ReportsContent_error_line_def Let_def)

text \<open>
  C7, amended. For every response whose status is outside 200 to 299, 404 included,
  \<open>handleResponse\<close> raises a plain \<open>Error\<close> whose message is
  \<open>API Error: <status> - <body, or the status text when the body is empty>\<close>; the status
  appears only inside that message. The report viewer renders the same error line for
  every failed fetch, whatever the error.
\<close>

theorem handleResponse_error_generic:
  "(\<not> res_ok res \<longrightarrow>
      getReport (Responded res) =
        Inl \<lparr>error_name = ''Error'',
             error_message = ''API Error: '' @ string_of_nat (status_code res) @ '' - ''
               @ (if body_text res \<noteq> '''' then body_text res else statusText res)\<rparr>)
   \<and> (\<forall>e e'. ReportsContent_error_line shown_id (Inl e)
             = ReportsContent_error_line shown_id (Inl e'))"
  by (simp add: getReport_def handleResponse_def ReportsContent_error_line_def Let_def)

theorem handleResponse_error_generic_witness:
  "getReport (Responded (sample_response 404 ''Not Found''))
     = Inl \<lparr>error_name = ''Error'', error_message = ''API Error: 404 - Not Found''\<rparr>
   \<and> ReportsContent_error_line ''123''
        (Inl \<lparr>error_name = ''Error'', error_message = ''API Error: 404 - Not Found''\<rparr>)
     = ReportsContent_error_line ''123''
        (Inl \<lparr>error_name = ''TypeError'', error_message = ''Failed to fetch''\<rparr>)"
proof -
  have nok: "\<not> res_ok (sample_response 404 ''Not Found'')"
    by (simp add: res_ok_def sample_response_def)
  have digits: "string_of_nat 404 = ''404''"
    by (simp add: string_of_nat.simps digit_char_def)
  have fields: "status_code (sample_response 404 ''Not Found'') = 404"
    "body_text (sample_response 404 ''Not Found'') = ''''"
    "statusText (sample_response 404 ''Not Found'') = ''Not Found''"
    by (simp_all add: sample_response_def)
  show ?thesis
    using handleResponse_error_generic [of "sample_response 404 ''Not Found''" "''123''"] nok
    by (simp add: digits fields)
qed


section \<open>Properties of the query cache\<close>

lemma reports_prefix_matches_list_key:
  "partialMatchKey (DashboardContent_queryKey filters) [KString ''reports'']"
  by (simp add: DashboardContent_queryKey_def)

lemma invalidateQueries_marks_stale:
  "cache key = Some e \<Longrightarrow> partialMatchKey key given
   \<Longrightarrow> read_triggers_fetch (invalidateQueries given cache) key now staleTime"
  by (simp add: invalidateQueries_def read_triggers_fetch_def)

text \<open>
  C1, evaluated on the source. The invalidation that follows a successful create leaves
  the entry of every list query of the dashboard, under any filter, and the entry of the
  statistics query exactly as they were; with both fetched at time 0 and the create
  finished before time 2000, a read of either key at time 2000 triggers no fetch.
\<close>

theorem create_success_invalidates_neither_key:
  "HomeContent_onSuccess cache (DashboardContent_queryKey filters)
     = cache (DashboardContent_queryKey filters)
   \<and> HomeContent_onSuccess cache AnalyticsContent_queryKey = cache AnalyticsContent_queryKey
   \<and> \<not> read_triggers_fetch (HomeContent_onSuccess sample_cache)
         (DashboardContent_queryKey []) 2000 DashboardContent_staleTime
   \<and> \<not> read_triggers_fetch (HomeContent_onSuccess sample_cache)
         AnalyticsContent_queryKey 2000 AnalyticsContent_staleTime"
  by (simp add: HomeContent_onSuccess_def invalidateQueries_def DashboardContent_queryKey_def
                AnalyticsContent_queryKey_def read_triggers_fetch_def sample_cache_def
                DashboardContent_staleTime_def AnalyticsContent_staleTime_def)


section \<open>Properties of the client-side sort\<close>

subsection \<open>The short-array algorithm sorts stably under a key order\<close>

lemma key_orderD:
  "key_order comparefn f S \<Longrightarrow> a \<in> S \<Longrightarrow> b \<in> S \<Longrightarrow> (SortCompare comparefn a b < 0) = (f a < f b)"
  by (simp add: key_order_def)

lemma key_order_subset: "key_order comparefn f S \<Longrightarrow> T \<subseteq> S \<Longrightarrow> key_order comparefn f T"
  by (auto simp: key_order_def)

lemma binary_search_spec:
  assumes "sorted (map f work)" and "key_order comparefn f (insert pivot (set work))"
    and "left \<le> right" and "right \<le> length work"
    and "\<forall>j<left. f (work ! j) \<le> f pivot"
    and "\<forall>j. right \<le> j \<and> j < length work \<longrightarrow> f pivot < f (work ! j)"
  shows "binary_search comparefn pivot work left right \<le> length work
    \<and> (\<forall>j<binary_search comparefn pivot work left right. f (work ! j) \<le> f pivot)
    \<and> (\<forall>j. binary_search comparefn pivot work left right \<le> j \<and> j < length work
           \<longrightarrow> f pivot < f (work ! j))"
  using assms
proof (induction comparefn pivot work left right rule: binary_search.induct)
  case (1 comparefn pivot work left right)
  show ?case
  proof (cases "left < right")
    case False
    then have "left = right" using "1.prems"(3) by simp
    then show ?thesis
      using "1.prems" False by (simp add: binary_search.simps [of _ _ _ right right])
  next
    case True
    define mid where "mid = left + (right - left) div 2"
    have mid: "left \<le> mid" "mid < right" "mid < length work"
      using True "1.prems"(4) by (simp_all add: mid_def)
    have memb: "work ! mid \<in> set work" using mid(3) by simp
    have cmp: "(SortCompare comparefn pivot (work ! mid) < 0) = (f pivot < f (work ! mid))"
      using key_orderD [OF "1.prems"(2), of pivot "work ! mid"] memb by simp
    have mono: "\<And>i j. i \<le> j \<Longrightarrow> j < length work \<Longrightarrow> f (work ! i) \<le> f (work ! j)"
      using "1.prems"(1) by (simp add: sorted_iff_nth_mono)
    show ?thesis
    proof (cases "SortCompare comparefn pivot (work ! mid) < 0")
      case lt: True
      have unfold: "binary_search comparefn pivot work left right
                      = binary_search comparefn pivot work left mid"
        using True lt by (subst binary_search.simps) (simp add: mid_def Let_def)
      have upper: "\<forall>j. mid \<le> j \<and> j < length work \<longrightarrow> f pivot < f (work ! j)"
      proof (intro allI impI)
        fix j assume j: "mid \<le> j \<and> j < length work"
        have "f pivot < f (work ! mid)" using lt cmp by simp
        also have "\<dots> \<le> f (work ! j)" using j mono by simp
        finally show "f pivot < f (work ! j)" .
      qed
      have "mid \<le> length work" using mid(3) by simp
      from "1.IH"(1) [OF True mid_def lt "1.prems"(1,2) mid(1) this "1.prems"(5) upper]
      show ?thesis unfolding unfold .
    next
      case ge: False
      have unfold: "binary_search comparefn pivot work left right
                      = binary_search comparefn pivot work (mid + 1) right"
        using True ge by (subst binary_search.simps) (simp add: mid_def Let_def)
      have lower: "\<forall>j<mid + 1. f (work ! j) \<le> f pivot"
      proof (intro allI impI)
        fix j assume j: "j < mid + 1"
        have "f (work ! j) \<le> f (work ! mid)" using j mid(3) mono by simp
        also have "\<dots> \<le> f pivot" using ge cmp by simp
        finally show "f (work ! j) \<le> f pivot" .
      qed
      have "mid + 1 \<le> right" using mid(2) by simp
      from "1.IH"(2) [OF True mid_def ge "1.prems"(1,2) this "1.prems"(4) lower "1.prems"(6)]
      show ?thesis unfolding unfold .
    qed
  qed
qed


lemma take_drop_bounds:
  assumes "i \<le> length work"
    and "\<forall>j<i. f (work ! j) \<le> (c::int)"
    and "\<forall>j. i \<le> j \<and> j < length work \<longrightarrow> c < f (work ! j)"
  shows "\<forall>x\<in>set (take i work). f x \<le> c" and "\<forall>x\<in>set (drop i work). c < f x"
proof -
  show "\<forall>x\<in>set (take i work). f x \<le> c"
  proof
    fix x assume "x \<in> set (take i work)"
    then obtain j where "j < length (take i work)" "take i work ! j = x"
      by (auto simp: in_set_conv_nth)
    then show "f x \<le> c" using assms(2) by auto
  qed
  show "\<forall>x\<in>set (drop i work). c < f x"
  proof
    fix x assume "x \<in> set (drop i work)"
    then obtain j where j: "j < length (drop i work)" "drop i work ! j = x"
      by (auto simp: in_set_conv_nth)
    then have "work ! (i + j) = x" "i + j < length work" using assms(1) by auto
    then show "c < f x" using assms(3) by auto
  qed
qed

lemma insert_pivot_props:
  assumes "sorted (map f work)" and "key_order comparefn f (insert pivot (set work))"
  shows "sorted (map f (insert_pivot comparefn work pivot))"
    and "mset (insert_pivot comparefn work pivot) = mset work + {#pivot#}"
    and "filter (\<lambda>x. f x = k) (insert_pivot comparefn work pivot)
           = filter (\<lambda>x. f x = k) (work @ [pivot])"
proof -
  define i where "i = binary_search comparefn pivot work 0 (length work)"
  have spec: "i \<le> length work" "\<forall>j<i. f (work ! j) \<le> f pivot"
    "\<forall>j. i \<le> j \<and> j < length work \<longrightarrow> f pivot < f (work ! j)"
    using binary_search_spec [OF assms, of 0 "length work"] by (simp_all add: i_def)
  note b = take_drop_bounds [OF spec]
  have ins: "insert_pivot comparefn work pivot = take i work @ [pivot] @ drop i work"
    by (simp add: insert_pivot_def i_def Let_def)
  have st: "sorted (map f (take i work))" "sorted (map f (drop i work))"
    using assms(1) by (simp_all add: sorted_wrt_take sorted_wrt_drop sorted_map)
  show "sorted (map f (insert_pivot comparefn work pivot))"
    unfolding ins using st b by (fastforce simp: sorted_append)
  have "mset (take i work) + mset (drop i work) = mset work"
    by (metis append_take_drop_id mset_append)
  then show "mset (insert_pivot comparefn work pivot) = mset work + {#pivot#}"
    unfolding ins by simp
  have split: "filter (\<lambda>x. f x = k) work
                 = filter (\<lambda>x. f x = k) (take i work) @ filter (\<lambda>x. f x = k) (drop i work)"
    by (metis append_take_drop_id filter_append)
  show "filter (\<lambda>x. f x = k) (insert_pivot comparefn work pivot)
           = filter (\<lambda>x. f x = k) (work @ [pivot])"
  proof (cases "f pivot = k")
    case True
    have "filter (\<lambda>x. f x = k) (drop i work) = []"
      using b(2) True by (auto simp: filter_empty_conv)
    then show ?thesis unfolding ins using True split by simp
  next
    case False
    then show ?thesis unfolding ins using split by simp
  qed
qed

lemma BinaryInsertionSort_props:
  assumes "sorted (map f run)" and "key_order comparefn f (set run \<union> set rest)"
  shows "sorted (map f (BinaryInsertionSort comparefn run rest))
    \<and> mset (BinaryInsertionSort comparefn run rest) = mset run + mset rest
    \<and> (\<forall>k. filter (\<lambda>x. f x = k) (BinaryInsertionSort comparefn run rest)
            = filter (\<lambda>x. f x = k) (run @ rest))"
  using assms
proof (induction rest arbitrary: run)
  case Nil
  then show ?case by (simp add: BinaryInsertionSort_def)
next
  case (Cons p rest)
  have ko: "key_order comparefn f (insert p (set run))"
    using Cons.prems(2) by (rule key_order_subset) auto
  note ip = insert_pivot_props [OF Cons.prems(1) ko]
  have set_ip: "set (insert_pivot comparefn run p) = insert p (set run)"
    using ip(2) by (metis mset_append mset.simps set_mset_mset list.set append_Cons append_Nil set_append Un_insert_right sup_bot.right_neutral)
  have ko2: "key_order comparefn f (set (insert_pivot comparefn run p) \<union> set rest)"
    using Cons.prems(2) by (rule key_order_subset) (auto simp: set_ip)
  from Cons.IH [OF ip(1) ko2]
  show ?case
    by (simp add: BinaryInsertionSort_def ip(2) ip(3))
qed


lemma extend_run_ascending:
  assumes "key_order comparefn f (insert prev (set rest))"
  shows "sorted (map f (prev # take (extend_run comparefn False prev rest) rest))"
  using assms
proof (induction rest arbitrary: prev)
  case Nil
  then show ?case by simp
next
  case (Cons cur rest)
  have cmp: "(SortCompare comparefn cur prev < 0) = (f cur < f prev)"
    using key_orderD [OF Cons.prems, of cur prev] by simp
  have ko: "key_order comparefn f (insert cur (set rest))"
    using Cons.prems by (rule key_order_subset) auto
  show ?case
  proof (cases "SortCompare comparefn cur prev < 0")
    case True
    then show ?thesis by (simp add: Let_def)
  next
    case False
    then have "f prev \<le> f cur" using cmp by simp
    then show ?thesis
      using False Cons.IH [OF ko] by (force simp: Let_def)
  qed
qed

lemma extend_run_descending:
  assumes "key_order comparefn f (insert prev (set rest))"
  shows "sorted_wrt (\<lambda>a b. f b < f a) (prev # take (extend_run comparefn True prev rest) rest)"
  using assms
proof (induction rest arbitrary: prev)
  case Nil
  then show ?case by simp
next
  case (Cons cur rest)
  have cmp: "(SortCompare comparefn cur prev < 0) = (f cur < f prev)"
    using key_orderD [OF Cons.prems, of cur prev] by simp
  have ko: "key_order comparefn f (insert cur (set rest))"
    using Cons.prems by (rule key_order_subset) auto
  show ?case
  proof (cases "0 \<le> SortCompare comparefn cur prev")
    case True
    then show ?thesis by (simp add: Let_def)
  next
    case False
    then have lt: "f cur < f prev" using cmp by simp
    have tail: "sorted_wrt (\<lambda>a b. f b < f a) (cur # take (extend_run comparefn True cur rest) rest)"
      by (rule Cons.IH [OF ko])
    then have "\<forall>y\<in>set (take (extend_run comparefn True cur rest) rest). f y < f prev"
      using lt by auto
    then show ?thesis
      using False lt tail by (simp add: Let_def)
  qed
qed

lemma descending_filter_rev:
  "sorted_wrt (\<lambda>a b. f b < (f a :: int)) xs
   \<Longrightarrow> filter (\<lambda>x. f x = k) (rev xs) = filter (\<lambda>x. f x = k) xs"
proof (induction xs)
  case Nil
  then show ?case by simp
next
  case (Cons x xs)
  show ?case
  proof (cases "f x = k")
    case True
    then have "filter (\<lambda>x. f x = k) xs = []"
      using Cons.prems by (auto simp: filter_empty_conv)
    then show ?thesis using True Cons by simp
  next
    case False
    then show ?thesis using Cons by simp
  qed
qed

lemma descending_rev_sorted:
  assumes "sorted_wrt (\<lambda>a b. f b < (f a :: int)) xs"
  shows "sorted (map f (rev xs))"
proof -
  have "sorted_wrt (\<lambda>a b. f a < f b) (rev xs)"
    using assms by (simp add: sorted_wrt_rev)
  then have "sorted_wrt (\<lambda>a b. f a \<le> f b) (rev xs)"
    by (rule sorted_wrt_mono_rel [rotated]) simp
  then show ?thesis by (simp add: sorted_map)
qed

lemma CountAndMakeRun_props:
  assumes "key_order comparefn f (set xs)" and "CountAndMakeRun comparefn xs = (run, rest)"
  shows "sorted (map f run)" and "mset run + mset rest = mset xs"
    and "filter (\<lambda>x. f x = k) (run @ rest) = filter (\<lambda>x. f x = k) xs"
proof -
  have "sorted (map f run) \<and> mset run + mset rest = mset xs
        \<and> filter (\<lambda>x. f x = k) (run @ rest) = filter (\<lambda>x. f x = k) xs"
  proof (cases xs)
    case Nil
    then show ?thesis using assms(2) by simp
  next
    case (Cons hi ys)
    show ?thesis
    proof (cases ys)
      case Nil
      then show ?thesis using assms(2) Cons by auto
    next
      case (Cons lo tl)
    have xs: "xs = hi # lo # tl" using \<open>xs = hi # ys\<close> Cons by simp
    define n where "n = extend_run comparefn (SortCompare comparefn lo hi < 0) lo tl"
    define r where "r = hi # lo # take n tl"
    have rest: "rest = drop n tl"
      and run: "run = (if SortCompare comparefn lo hi < 0 then rev r else r)"
      using assms(2) by (auto simp: xs Let_def n_def r_def)
    have whole: "r @ rest = xs" by (simp add: r_def rest xs)
    have cmp: "(SortCompare comparefn lo hi < 0) = (f lo < f hi)"
      using key_orderD [OF assms(1), of lo hi] by (simp add: xs)
    have ko: "key_order comparefn f (insert lo (set tl))"
      using assms(1) by (rule key_order_subset) (auto simp: xs)
    have ms: "mset r + mset rest = mset xs"
      by (metis whole mset_append)
    show ?thesis
    proof (cases "SortCompare comparefn lo hi < 0")
      case True
      have d: "sorted_wrt (\<lambda>a b. f b < f a) (lo # take n tl)"
        using extend_run_descending [OF ko] True by (simp add: n_def)
      then have "\<forall>y\<in>set (take n tl). f y < f hi"
        using True cmp by auto
      then have dr: "sorted_wrt (\<lambda>a b. f b < f a) r"
        using d True cmp by (simp add: r_def)
      have "filter (\<lambda>x. f x = k) (rev r @ rest) = filter (\<lambda>x. f x = k) (r @ rest)"
        using descending_filter_rev [OF dr] by simp
      then show ?thesis
        using True run descending_rev_sorted [OF dr] ms whole by simp
    next
      case False
      have a: "sorted (map f (lo # take n tl))"
        using extend_run_ascending [OF ko] False by (simp add: n_def)
      have "f hi \<le> f lo" using False cmp by simp
      then have "sorted (map f r)" using a by (force simp: r_def)
      then show ?thesis using False run ms whole by simp
    qed
    qed
  qed
  then show "sorted (map f run)" and "mset run + mset rest = mset xs"
    and "filter (\<lambda>x. f x = k) (run @ rest) = filter (\<lambda>x. f x = k) xs"
    by simp_all
qed

lemma sort_short_props:
  assumes "key_order comparefn f (set xs)"
  shows "sorted (map f (sort_short comparefn xs))"
    and "mset (sort_short comparefn xs) = mset xs"
    and "filter (\<lambda>x. f x = k) (sort_short comparefn xs) = filter (\<lambda>x. f x = k) xs"
proof -
  obtain run rest where cr: "CountAndMakeRun comparefn xs = (run, rest)"
    by (cases "CountAndMakeRun comparefn xs")
  note rp = CountAndMakeRun_props [OF assms cr]
  have "set_mset (mset run + mset rest) = set_mset (mset xs)" using rp(2) by simp
  then have sets: "set run \<union> set rest = set xs" by simp
  have ko: "key_order comparefn f (set run \<union> set rest)"
    using assms by (simp add: sets)
  note bp = BinaryInsertionSort_props [OF rp(1) ko]
  have eq: "sort_short comparefn xs = BinaryInsertionSort comparefn run rest"
    by (simp add: sort_short_def cr)
  show "sorted (map f (sort_short comparefn xs))" using bp by (simp add: eq)
  show "mset (sort_short comparefn xs) = mset xs" using bp rp(2) by (simp add: eq)
  show "filter (\<lambda>x. f x = k) (sort_short comparefn xs) = filter (\<lambda>x. f x = k) xs"
    using bp rp(3) [of k] by (simp add: eq)
qed

lemma sort_short_sort_key:
  assumes "key_order comparefn f (set xs)"
  shows "sort_short comparefn xs = sort_key f xs"
proof -
  note sp = sort_short_props [OF assms]
  have "sort_key f xs = sort_short comparefn xs"
  proof (rule properties_for_sort_key)
    show "mset (sort_short comparefn xs) = mset xs" by (rule sp(2))
    show "sorted (map f (sort_short comparefn xs))" by (rule sp(1))
    fix k
    have "filter (\<lambda>x. f x = f k) (sort_short comparefn xs) = filter (\<lambda>x. f x = f k) xs"
      by (rule sp(3))
    moreover have "(\<lambda>x. f k = f x) = (\<lambda>x. f x = f k)" by auto
    ultimately show "filter (\<lambda>x. f k = f x) (sort_short comparefn xs) = filter (\<lambda>x. f k = f x) xs"
      by simp
  qed
  then show ?thesis by simp
qed

subsection \<open>The stable insertion sort\<close>

lemma sort_insert_insort_key:
  assumes "\<forall>y\<in>set ys. (SortCompare comparefn x y \<le> 0) = (f x \<le> f y)"
  shows "sort_insert comparefn x ys = insort_key f x ys"
  using assms by (induction ys) simp_all

lemma stable_sort_sort_key:
  fixes f :: "'a \<Rightarrow> int"
  assumes "\<forall>x\<in>set xs. \<forall>y\<in>set xs. (SortCompare comparefn x y \<le> 0) = (f x \<le> f y)"
  shows "stable_sort comparefn xs = sort_key f xs"
  using assms
proof (induction xs)
  case Nil
  then show ?case by (simp add: stable_sort_def)
next
  case (Cons x xs)
  have tail: "stable_sort comparefn xs = sort_key f xs"
    using Cons by simp
  have "stable_sort comparefn (x # xs) = sort_insert comparefn x (sort_key f xs)"
    using tail by (simp add: stable_sort_def)
  also have "\<dots> = insort_key f x (sort_key f xs)"
    using Cons.prems by (intro sort_insert_insort_key) simp
  finally show ?case by (simp add: sort_key_def)
qed

subsection \<open>Comparators that subtract keys\<close>

lemma by_key_consistent:
  fixes f :: "'a \<Rightarrow> int"
  assumes "\<forall>a\<in>set xs. \<forall>b\<in>set xs. comparefn a b = Some (f a - f b)"
  shows "consistent_on comparefn xs"
  using assms by (simp add: consistent_on_def SortCompare_def)

lemma Array_sort_by_key:
  fixes f :: "'a \<Rightarrow> int"
  assumes "\<forall>a\<in>set xs. \<forall>b\<in>set xs. comparefn a b = Some (f a - f b)"
  shows "Array_sort comparefn xs = Some (sort_key f xs)"
proof (cases "length xs < 64")
  case True
  have "key_order comparefn f (set xs)"
    using assms by (simp add: key_order_def SortCompare_def)
  then show ?thesis
    using True by (simp add: Array_sort_def sort_short_sort_key)
next
  case False
  have "\<forall>x\<in>set xs. \<forall>y\<in>set xs. (SortCompare comparefn x y \<le> 0) = (f x \<le> f y)"
    using assms by (simp add: SortCompare_def)
  then have "stable_sort comparefn xs = sort_key f xs"
    by (rule stable_sort_sort_key)
  then show ?thesis
    using False by_key_consistent [OF assms] by (simp add: Array_sort_def)
qed


lemma compare_by_urgency:
  assumes "urgency_rank a \<noteq> None" and "urgency_rank b \<noteq> None"
  shows "compareReports (Some ''urgency_level:desc'') a b
           = Some (- rank_value a - (- rank_value b))"
  using assms by (auto simp: compareReports_def js_minus_def rank_value_def)

lemma sorted_descending:
  fixes f :: "'a \<Rightarrow> int"
  shows "sorted_wrt (\<lambda>a b. f b \<le> f a) (sort_key (\<lambda>r. - f r) xs)"
proof -
  have "sorted (map (\<lambda>r. - f r) (sort_key (\<lambda>r. - f r) xs))"
    by (rule sorted_sort_key)
  then show ?thesis by (simp add: sorted_map)
qed

lemma stable_descending:
  fixes f :: "'a \<Rightarrow> int"
  shows "filter (\<lambda>r. f r = k) (sort_key (\<lambda>r. - f r) xs) = filter (\<lambda>r. f r = k) xs"
proof -
  have "filter (\<lambda>r. - f r = - k) (sort_key (\<lambda>r. - f r) xs) = filter (\<lambda>r. - f r = - k) xs"
    by (rule sort_key_stable)
  then show ?thesis by simp
qed

lemma known_urgency_rank:
  "report_urgency_level r \<in> {Some ''Critical'', Some ''High'', Some ''Medium'', Some ''Low''}
   \<Longrightarrow> urgency_rank r \<noteq> None \<and> rank_value r \<in> {1, 2, 3, 4}"
  by (auto simp: urgency_rank_def rank_value_def urgencyOrder_def)

lemmas sort_evaluation =
  sortedReports_def Array_sort_def sort_short_def BinaryInsertionSort_def insert_pivot_def
  binary_search.simps SortCompare_def compareReports_def js_minus_def Date_getTime_def
  urgency_rank_def urgencyOrder_def sample_report_def sample_report_without_level_def Let_def

subsection \<open>Sorting by urgency\<close>

text \<open>
  A trace of the short-array algorithm with a comparison that yields \<^verbatim>\<open>NaN\<close>: the run
  Low, Critical is descending and is reversed, the entry without a level stays where the
  binary search leaves it, and High is inserted behind Critical.
\<close>

lemma sortedReports_urgency_trace:
  "map_option (map report_id)
     (sortedReports
        (Some [sample_report 1 DateNull ''Low'', sample_report 2 DateNull ''Critical'',
               sample_report_without_level 3 DateNull, sample_report 4 DateNull ''High''])
        (Some ''urgency_level:desc''))
   = Some [2, 4, 1, 3]"
  by (simp add: sort_evaluation)


text \<open>
  C6, as the specification states it, fails: in the collection of a Low entry, an entry
  without \<^verbatim>\<open>urgency_level\<close> and a Critical entry, every comparison the sort makes involves
  the entry without a level and yields \<^verbatim>\<open>NaN\<close>, the array counts as one sorted run, and
  the result is the input: rank 1 stays before rank 4.
\<close>

theorem urgency_sort_every_collection_counterexample:
  "sortedReports
     (Some [sample_report 1 (DateText (Some 100)) ''Low'',
            sample_report_without_level 2 (DateText (Some 200)),
            sample_report 3 (DateText (Some 300)) ''Critical''])
     (Some ''urgency_level:desc'')
   = Some [sample_report 1 (DateText (Some 100)) ''Low'',
           sample_report_without_level 2 (DateText (Some 200)),
           sample_report 3 (DateText (Some 300)) ''Critical'']
   \<and> \<not> spec_ranks_non_increasing
         [sample_report 1 (DateText (Some 100)) ''Low'',
          sample_report_without_level 2 (DateText (Some 200)),
          sample_report 3 (DateText (Some 300)) ''Critical'']"
  by (simp add: sort_evaluation)

text \<open>
  C6, amended. For every collection whose entries all carry one of the four urgency
  levels, sorting with \<open>urgency_level:desc\<close> rearranges the collection so that the ordinal
  ranks (Critical 4, High 3, Medium 2, Low 1) are non-increasing, and for each rank the
  entries of that rank are in the order they had in the input. An entry whose level is
  missing or not one of the four counts as equal to every entry, in either order, and a
  collection that holds one need not come out in rank order: Low, no level, Critical
  stays as it is.
\<close>

theorem sortedReports_urgency_desc:
  assumes "\<forall>r\<in>set reports. report_urgency_level r
             \<in> {Some ''Critical'', Some ''High'', Some ''Medium'', Some ''Low''}"
  shows "(\<exists>ys. sortedReports (Some reports) (Some ''urgency_level:desc'') = Some ys
            \<and> sorted_wrt (\<lambda>a b. rank_value b \<le> rank_value a) ys
            \<and> mset ys = mset reports
            \<and> (\<forall>k. filter (\<lambda>r. rank_value r = k) ys = filter (\<lambda>r. rank_value r = k) reports))
         \<and> rank_value (sample_report 0 DateNull ''Critical'') = 4
         \<and> rank_value (sample_report 0 DateNull ''High'') = 3
         \<and> rank_value (sample_report 0 DateNull ''Medium'') = 2
         \<and> rank_value (sample_report 0 DateNull ''Low'') = 1
         \<and> (\<forall>a b. urgency_rank a = None
                \<longrightarrow> SortCompare (compareReports (Some ''urgency_level:desc'')) a b = 0
                    \<and> SortCompare (compareReports (Some ''urgency_level:desc'')) b a = 0)
         \<and> sortedReports
              (Some [sample_report 1 (DateText (Some 100)) ''Low'',
                     sample_report_without_level 2 (DateText (Some 200)),
                     sample_report 3 (DateText (Some 300)) ''Critical''])
              (Some ''urgency_level:desc'')
            = Some [sample_report 1 (DateText (Some 100)) ''Low'',
                    sample_report_without_level 2 (DateText (Some 200)),
                    sample_report 3 (DateText (Some 300)) ''Critical'']"
proof -
  have ranked: "\<forall>r\<in>set reports. urgency_rank r \<noteq> None"
    using assms known_urgency_rank by blast
  have eq: "sortedReports (Some reports) (Some ''urgency_level:desc'')
              = Some (sort_key (\<lambda>r. - rank_value r) reports)"
    unfolding sortedReports_def option.case
    by (rule Array_sort_by_key) (simp add: ranked compare_by_urgency)
  have sorted_part: "\<exists>ys. sortedReports (Some reports) (Some ''urgency_level:desc'') = Some ys
            \<and> sorted_wrt (\<lambda>a b. rank_value b \<le> rank_value a) ys
            \<and> mset ys = mset reports
            \<and> (\<forall>k. filter (\<lambda>r. rank_value r = k) ys = filter (\<lambda>r. rank_value r = k) reports)"
    unfolding eq by (simp add: sorted_descending stable_descending)
  have ranks: "rank_value (sample_report 0 DateNull ''Critical'') = 4"
    "rank_value (sample_report 0 DateNull ''High'') = 3"
    "rank_value (sample_report 0 DateNull ''Medium'') = 2"
    "rank_value (sample_report 0 DateNull ''Low'') = 1"
    by (simp_all add: rank_value_def urgency_rank_def urgencyOrder_def sample_report_def)
  have unranked: "\<forall>a b. urgency_rank a = None
                \<longrightarrow> SortCompare (compareReports (Some ''urgency_level:desc'')) a b = 0
                    \<and> SortCompare (compareReports (Some ''urgency_level:desc'')) b a = 0"
    by (auto simp: SortCompare_def compareReports_def js_minus_def split: option.splits)
  have unsorted: "sortedReports
              (Some [sample_report 1 (DateText (Some 100)) ''Low'',
                     sample_report_without_level 2 (DateText (Some 200)),
                     sample_report 3 (DateText (Some 300)) ''Critical''])
              (Some ''urgency_level:desc'')
            = Some [sample_report 1 (DateText (Some 100)) ''Low'',
                    sample_report_without_level 2 (DateText (Some 200)),
                    sample_report 3 (DateText (Some 300)) ''Critical'']"
    by (simp add: sort_evaluation)
  show ?thesis
    using sorted_part ranks unranked unsorted by blast
qed

theorem sortedReports_urgency_desc_witness:
  "sortedReports
     (Some [sample_report 1 (DateText (Some 100)) ''Low'',
            sample_report 2 (DateText (Some 200)) ''Critical'',
            sample_report 3 (DateText (Some 300)) ''Low'',
            sample_report 4 (DateText (Some 50)) ''Critical''])
     (Some ''urgency_level:desc'')
   = Some [sample_report 2 (DateText (Some 200)) ''Critical'',
           sample_report 4 (DateText (Some 50)) ''Critical'',
           sample_report 1 (DateText (Some 100)) ''Low'',
           sample_report 3 (DateText (Some 300)) ''Low'']
   \<and> (\<exists>ys. sortedReports
         (Some [sample_report 1 (DateText (Some 100)) ''Low'',
                sample_report 2 (DateText (Some 200)) ''Critical'',
                sample_report 3 (DateText (Some 300)) ''Low'',
                sample_report 4 (DateText (Some 50)) ''Critical''])
         (Some ''urgency_level:desc'') = Some ys
        \<and> sorted_wrt (\<lambda>a b. rank_value b \<le> rank_value a) ys)
   \<and> SortCompare (compareReports (Some ''urgency_level:desc''))
       (sample_report_without_level 2 (DateText (Some 200)))
       (sample_report 3 (DateText (Some 300)) ''Critical'') = 0"
proof -
  have levels: "\<forall>r\<in>set [sample_report 1 (DateText (Some 100)) ''Low'',
            sample_report 2 (DateText (Some 200)) ''Critical'',
            sample_report 3 (DateText (Some 300)) ''Low'',
            sample_report 4 (DateText (Some 50)) ''Critical'']. report_urgency_level r
             \<in> {Some ''Critical'', Some ''High'', Some ''Medium'', Some ''Low''}"
    by (simp add: sample_report_def)
  have run: "sortedReports
     (Some [sample_report 1 (DateText (Some 100)) ''Low'',
            sample_report 2 (DateText (Some 200)) ''Critical'',
            sample_report 3 (DateText (Some 300)) ''Low'',
            sample_report 4 (DateText (Some 50)) ''Critical''])
     (Some ''urgency_level:desc'')
   = Some [sample_report 2 (DateText (Some 200)) ''Critical'',
           sample_report 4 (DateText (Some 50)) ''Critical'',
           sample_report 1 (DateText (Some 100)) ''Low'',
           sample_report 3 (DateText (Some 300)) ''Low'']"
    by (simp add: sort_evaluation)
  have unranked: "urgency_rank (sample_report_without_level 2 (DateText (Some 200))) = None"
    by (simp add: urgency_rank_def sample_report_without_level_def)
  show ?thesis
    using sortedReports_urgency_desc [OF levels] run unranked by simp
qed

subsection \<open>Sorting by date\<close>





section \<open>Properties of the derived scalars\<close>

subsection \<open>Rounding to a double\<close>

lemma pow2_powi: "pow2 e = 2 powi e"
  by (simp add: pow2_def power_int_def inverse_eq_divide power_one_over)

lemma pow2_pos: "0 < pow2 e"
  by (simp add: pow2_powi)

lemma pow2_mono: "j \<le> k \<Longrightarrow> pow2 j \<le> pow2 k"
  by (simp add: pow2_powi power_int_increasing)

lemma round_half_even_error: "\<bar>of_int (round_half_even x) - x\<bar> \<le> 1 / 2"
proof -
  have "of_int \<lfloor>x\<rfloor> \<le> x" "x < of_int \<lfloor>x\<rfloor> + 1" by linarith+
  then show ?thesis
    by (auto simp: round_half_even_def Let_def abs_le_iff)
qed

lemma round_half_even_nonneg: "0 \<le> x \<Longrightarrow> 0 \<le> round_half_even x"
  by (auto simp: round_half_even_def Let_def)

lemma quotient_bounds:
  assumes "0 < x" and q: "quotient_of x = (a, b)"
  shows "0 < a" "0 < b" "x = of_int a / of_int b"
proof -
  show b: "0 < b" using q by (rule quotient_of_denom_pos)
  show x: "x = of_int a / of_int b"
    using q by (rule quotient_of_div)
  show "0 < a"
    using assms(1) b x by (simp add: zero_less_divide_iff)
qed

lemma nat_bitlen:
  assumes "0 < (a::int)"
  shows "(2::rat) ^ (floorlog 2 (nat a) - 1) \<le> of_int a" "of_int a < (2::rat) ^ floorlog 2 (nat a)"
    "0 < floorlog 2 (nat a)"
proof -
  have pos: "0 < nat a" using assms by simp
  from floorlog_bounds [OF pos, of 2]
  have b: "2 ^ (floorlog 2 (nat a) - 1) \<le> nat a" "nat a < 2 ^ floorlog 2 (nat a)" by simp_all
  have "(of_nat (2 ^ (floorlog 2 (nat a) - 1)) :: rat) \<le> of_nat (nat a)"
    using b(1) of_nat_le_iff by blast
  then show "(2::rat) ^ (floorlog 2 (nat a) - 1) \<le> of_int a"
    using assms by simp
  have "(of_nat (nat a) :: rat) < of_nat (2 ^ floorlog 2 (nat a))"
    using b(2) of_nat_less_iff by blast
  then show "of_int a < (2::rat) ^ floorlog 2 (nat a)"
    using assms by simp
  show "0 < floorlog 2 (nat a)"
    using pos by (simp add: floorlog_eq_zero_iff Suc_le_eq zero_less_iff_neq_zero)
qed

lemma ilog2_bounds:
  assumes "0 < x"
  shows "2 powi (ilog2 x) \<le> x" and "x < 2 powi (ilog2 x + 1)"
proof -
  obtain a b where q: "quotient_of x = (a, b)" by (cases "quotient_of x")
  note qb = quotient_bounds [OF assms q]
  define la where "la = floorlog 2 (nat a)"
  define lb where "lb = floorlog 2 (nat b)"
  define d where "d = int la - int lb"
  note ba = nat_bitlen [OF qb(1), folded la_def]
  note bb = nat_bitlen [OF qb(2), folded lb_def]
  have il: "ilog2 x = (if 2 powi d \<le> x then d else d - 1)"
    by (simp add: ilog2_def q la_def lb_def d_def Let_def pow2_powi)
  have bpos: "(0::rat) < of_int b" using qb(2) by simp
  have lower: "2 powi (d - 1) \<le> x"
  proof -
    have "(2::rat) powi (d - 1) = 2 ^ (la - 1) / 2 ^ lb"
      using ba(3) by (simp add: d_def power_int_diff of_nat_diff Suc_le_eq flip: power_int_of_nat)
    also have "\<dots> \<le> of_int a / 2 ^ lb"
      using ba(1) by (simp add: divide_right_mono)
    also have "\<dots> \<le> of_int a / of_int b"
      using bb(2) bpos qb(1) by (intro divide_left_mono) (simp_all add: less_imp_le)
    finally show ?thesis using qb(3) by simp
  qed
  have upper: "x < 2 powi (d + 1)"
  proof -
    have "x = of_int a / of_int b" by (rule qb(3))
    also have "\<dots> < 2 ^ la / of_int b"
      using ba(2) bpos by (simp add: divide_strict_right_mono)
    also have "\<dots> \<le> 2 ^ la / 2 ^ (lb - 1)"
      using bb(1) bpos by (intro divide_left_mono) simp_all
    also have "\<dots> = (2::rat) powi (d + 1)"
      using bb(3) by (simp add: d_def power_int_diff power_int_add of_nat_diff Suc_le_eq flip: power_int_of_nat)
    finally show ?thesis .
  qed
  show "2 powi (ilog2 x) \<le> x"
    using lower by (simp add: il)
  show "x < 2 powi (ilog2 x + 1)"
    using upper by (auto simp: il not_le)
qed


lemma to_double_error:
  assumes "0 < x"
  shows "\<bar>to_double x - x\<bar> \<le> x / 2 ^ 53"
proof -
  define s where "s = (2::rat) powi (ilog2 x - 52)"
  have spos: "0 < s" by (simp add: s_def)
  have val: "to_double x = of_int (round_half_even (x / s)) * s"
    using assms by (simp add: to_double_def s_def Let_def pow2_powi)
  have "\<bar>of_int (round_half_even (x / s)) - x / s\<bar> * s \<le> 1 / 2 * s"
    using round_half_even_error [of "x / s"] spos by (intro mult_right_mono) simp_all
  moreover have "\<bar>of_int (round_half_even (x / s)) - x / s\<bar> * s
                  = \<bar>of_int (round_half_even (x / s)) * s - x\<bar>"
  proof -
    have "\<bar>of_int (round_half_even (x / s)) - x / s\<bar> * s
            = \<bar>(of_int (round_half_even (x / s)) - x / s) * s\<bar>"
      using spos by (simp add: abs_mult)
    also have "(of_int (round_half_even (x / s)) - x / s) * s
                 = of_int (round_half_even (x / s)) * s - x"
      using spos by (simp add: left_diff_distrib)
    finally show ?thesis .
  qed
  ultimately have err: "\<bar>to_double x - x\<bar> \<le> s / 2" by (simp add: val)
  have "s = 2 powi (ilog2 x) / 2 ^ 52"
    by (simp add: s_def power_int_diff)
  also have "\<dots> \<le> x / 2 ^ 52"
    using ilog2_bounds(1) [OF assms] by (simp add: divide_right_mono)
  finally have "s / 2 \<le> x / 2 ^ 53" by simp
  with err show ?thesis by linarith
qed

lemma to_double_nonneg: "0 \<le> x \<Longrightarrow> 0 \<le> to_double x"
  using pow2_pos [of "ilog2 \<bar>x\<bar> - 52"]
  by (simp add: to_double_def Let_def round_half_even_nonneg zero_le_mult_iff zero_le_divide_iff less_imp_le)

lemma ilog2_eqI:
  assumes "pow2 k \<le> x" and "x < pow2 (k + 1)"
  shows "ilog2 x = k"
proof -
  have xpos: "0 < x" using pow2_pos [of k] assms(1) by simp
  note b = ilog2_bounds [OF xpos, folded pow2_powi]
  have "\<not> ilog2 x < k"
  proof
    assume "ilog2 x < k"
    then have "pow2 (ilog2 x + 1) \<le> pow2 k" by (intro pow2_mono) simp
    with b(2) assms(1) show False by simp
  qed
  moreover have "\<not> k < ilog2 x"
  proof
    assume "k < ilog2 x"
    then have "pow2 (k + 1) \<le> pow2 (ilog2 x)" by (intro pow2_mono) simp
    with b(1) assms(2) show False by simp
  qed
  ultimately show ?thesis by simp
qed

lemma round_half_even_eqI:
  assumes "\<bar>of_int m - y\<bar> < 1 / 2"
  shows "round_half_even y = m"
proof (cases "of_int m \<le> y")
  case True
  then have "\<lfloor>y\<rfloor> = m" using assms by (simp add: abs_less_iff floor_unique)
  then show ?thesis using assms True by (simp add: round_half_even_def Let_def abs_less_iff)
next
  case False
  then have "\<lfloor>y\<rfloor> = m - 1" using assms by (simp add: abs_less_iff floor_unique)
  then show ?thesis using assms False by (simp add: round_half_even_def Let_def abs_less_iff)
qed

lemma to_double_eqI:
  assumes "pow2 k \<le> x" and "x < pow2 (k + 1)"
    and "\<bar>of_int m - x / pow2 (k - 52)\<bar> < 1 / 2"
  shows "to_double x = of_int m * pow2 (k - 52)"
proof -
  have "0 < x" using pow2_pos [of k] assms(1) by simp
  then show ?thesis
    by (simp add: to_double_def Let_def ilog2_eqI [OF assms(1,2)] round_half_even_eqI [OF assms(3)])
qed


text \<open>The double nearest to one tenth, as a check of the rounding against a known value.\<close>

lemma to_double_one_tenth: "to_double (1 / 10) = 3602879701896397 / 36028797018963968"
proof -
  have "to_double (1 / 10) = of_int 7205759403792794 * pow2 (- 4 - 52)"
    by (rule to_double_eqI) (simp_all add: pow2_def)
  also have "\<dots> = 3602879701896397 / 36028797018963968"
    by (simp add: pow2_def)
  finally show ?thesis .
qed

lemma to_double_zero: "to_double 0 = 0"
  by (simp add: to_double_def)

lemma two_roundings_error:
  assumes "0 \<le> x"
  shows "\<bar>to_double (to_double x * 100) - 100 * x\<bar> \<le> 100 * x * (2 / 2 ^ 53 + 1 / 2 ^ 106)"
proof (cases "x = 0")
  case True
  then show ?thesis by (simp add: to_double_zero)
next
  case False
  then have xpos: "0 < x" using assms by simp
  define u :: rat where "u = 1 / 2 ^ 53"
  have u: "0 \<le> u" "u * u = 1 / 2 ^ 106" by (simp_all add: u_def)
  define q where "q = to_double x"
  have q0: "0 \<le> q" using assms by (simp add: q_def to_double_nonneg)
  have qe: "\<bar>q - x\<bar> \<le> x * u"
    using to_double_error [OF xpos] by (simp add: q_def u_def)
  then have qu: "q \<le> x * (1 + u)" by (simp add: abs_le_iff algebra_simps)
  have ye: "\<bar>to_double (q * 100) - q * 100\<bar> \<le> q * 100 * u"
  proof (cases "q = 0")
    case True
    then show ?thesis by (simp add: to_double_zero)
  next
    case False
    then have "0 < q * 100" using q0 by simp
    from to_double_error [OF this] show ?thesis by (simp add: u_def)
  qed
  have "q * 100 * u \<le> x * (1 + u) * 100 * u"
    using qu u(1) by (intro mult_right_mono) simp_all
  with ye have ye': "\<bar>to_double (q * 100) - q * 100\<bar> \<le> x * (1 + u) * 100 * u" by linarith
  have "\<bar>to_double (q * 100) - 100 * x\<bar> \<le> \<bar>to_double (q * 100) - q * 100\<bar> + 100 * \<bar>q - x\<bar>"
  proof -
    have "to_double (q * 100) - 100 * x = (to_double (q * 100) - q * 100) + 100 * (q - x)" by simp
    then have "\<bar>to_double (q * 100) - 100 * x\<bar> \<le> \<bar>to_double (q * 100) - q * 100\<bar> + \<bar>100 * (q - x)\<bar>"
      by (simp only: abs_triangle_ineq)
    moreover have "\<bar>100 * (q - x)\<bar> = 100 * \<bar>q - x\<bar>" by (simp only: abs_mult abs_numeral)
    ultimately show ?thesis by (simp only:)
  qed
  also have "\<dots> \<le> x * (1 + u) * 100 * u + 100 * (x * u)"
  proof -
    have "100 * \<bar>q - x\<bar> \<le> 100 * (x * u)" using qe by simp
    with ye' show ?thesis by (rule add_mono)
  qed
  also have "\<dots> = 100 * x * (2 * u + u * u)"
    by (simp add: algebra_simps)
  finally show ?thesis
    by (simp add: q_def u(2)) (simp add: u_def)
qed

lemma nearest_tenth:
  fixes r t :: nat and p c :: rat
  assumes t: "0 < t" and c: "0 \<le> c" "2000 * of_nat r * c < 1"
    and p: "\<bar>p - 100 * (of_nat r / of_nat t)\<bar> \<le> 100 * (of_nat r / of_nat t) * c"
  shows "\<bar>of_int \<lfloor>10 * p + 1 / 2\<rfloor> - 1000 * (of_nat r / of_nat t)\<bar> \<le> (1 / 2 :: rat)"
proof -
  define T :: rat where "T = of_nat t"
  define R :: rat where "R = of_nat r"
  define m where "m = \<lfloor>10 * p + 1 / 2\<rfloor>"
  define M :: rat where "M = of_int m"
  have T: "0 < T" using t by (simp add: T_def)
  have m: "M \<le> 10 * p + 1 / 2" "10 * p + 1 / 2 < M + 1"
    unfolding M_def m_def by linarith+
  have c': "2000 * R * c < 1" using c(2) by (simp add: R_def)
  have "\<bar>p - 100 * (R / T)\<bar> \<le> 100 * (R / T) * c"
    using p by (simp only: R_def T_def)
  also have "\<dots> = (2000 * R * c) / (20 * T)"
    using T by simp
  also have "\<dots> < 1 / (20 * T)"
    using c' T by (intro divide_strict_right_mono) simp_all
  finally have "10 * \<bar>p - 100 * (R / T)\<bar> < 10 * (1 / (20 * T))"
    by (simp only: mult_less_cancel_left_pos zero_less_numeral)
  moreover have "10 * \<bar>p - 100 * (R / T)\<bar> = \<bar>10 * p - 1000 * (R / T)\<bar>"
  proof -
    have "10 * \<bar>p - 100 * (R / T)\<bar> = \<bar>10 * (p - 100 * (R / T))\<bar>"
      by (simp only: abs_mult abs_numeral)
    also have "10 * (p - 100 * (R / T)) = 10 * p - 1000 * (R / T)" by simp
    finally show ?thesis .
  qed
  moreover have "10 * (1 / (20 * T)) = 1 / (2 * T)" by simp
  ultimately have close: "\<bar>10 * p - 1000 * (R / T)\<bar> < 1 / (2 * T)" by (simp only:)
  have up: "M - 1000 * (R / T) \<le> 1 / 2"
  proof (rule ccontr)
    assume "\<not> M - 1000 * (R / T) \<le> 1 / 2"
    then have "2000 * R < (2 * M - 1) * T"
      using T by (simp add: field_simps)
    then have "(of_int (2000 * int r) :: rat) < of_int ((2 * m - 1) * int t)"
      by (simp add: R_def T_def M_def)
    then have "2000 * int r < (2 * m - 1) * int t"
      by (simp only: of_int_less_iff)
    then have "2000 * int r + 1 \<le> (2 * m - 1) * int t" by simp
    then have "(of_int (2000 * int r + 1) :: rat) \<le> of_int ((2 * m - 1) * int t)"
      by (simp only: of_int_le_iff)
    then have "2000 * R + 1 \<le> (2 * M - 1) * T"
      by (simp add: R_def T_def M_def)
    then have "(2000 * R + 1) / (2 * T) \<le> ((2 * M - 1) * T) / (2 * T)"
      using T by (intro divide_right_mono) simp_all
    moreover have "(2000 * R + 1) / (2 * T) = 1000 * (R / T) + 1 / (2 * T)"
      using T by (simp add: add_divide_distrib)
    moreover have "((2 * M - 1) * T) / (2 * T) = M - 1 / 2"
      using T by (simp add: diff_divide_distrib)
    ultimately have "1000 * (R / T) + 1 / (2 * T) \<le> M - 1 / 2" by (simp only:)
    with m(1) close show False by (simp add: abs_less_iff)
  qed
  have down: "1000 * (R / T) - M \<le> 1 / 2"
  proof (rule ccontr)
    assume "\<not> 1000 * (R / T) - M \<le> 1 / 2"
    then have "(2 * M + 1) * T < 2000 * R"
      using T by (simp add: field_simps)
    then have "(of_int ((2 * m + 1) * int t) :: rat) < of_int (2000 * int r)"
      by (simp add: R_def T_def M_def)
    then have "(2 * m + 1) * int t < 2000 * int r"
      by (simp only: of_int_less_iff)
    then have "(2 * m + 1) * int t + 1 \<le> 2000 * int r" by simp
    then have "(of_int ((2 * m + 1) * int t + 1) :: rat) \<le> of_int (2000 * int r)"
      by (simp only: of_int_le_iff)
    then have "(2 * M + 1) * T + 1 \<le> 2000 * R"
      by (simp add: R_def T_def M_def)
    then have "((2 * M + 1) * T + 1) / (2 * T) \<le> (2000 * R) / (2 * T)"
      using T by (intro divide_right_mono) simp_all
    moreover have "((2 * M + 1) * T + 1) / (2 * T) = M + 1 / 2 + 1 / (2 * T)"
      using T by (simp add: add_divide_distrib)
    moreover have "(2000 * R) / (2 * T) = 1000 * (R / T)" by simp
    ultimately have "M + 1 / 2 + 1 / (2 * T) \<le> 1000 * (R / T)" by (simp only:)
    with m(2) close show False by (simp add: abs_less_iff)
  qed
  have "\<bar>M - 1000 * (R / T)\<bar> \<le> 1 / 2"
    using up down by (intro abs_leI) simp_all
  then show ?thesis by (simp only: M_def m_def R_def T_def)
qed

subsection \<open>Evaluating the rate\<close>

lemma floor_rat_numeral: "\<lfloor>(numeral a :: rat) / numeral b\<rfloor> = numeral a div numeral b"
  using floor_divide_of_int_eq [of "numeral a" "numeral b", where ?'a = rat] by simp

lemma completion_double_3_10: "js_times (js_divide 3 10) 100 = 30"
proof -
  have "to_double (3 / 10) = of_int 5404319552844595 * pow2 (- 2 - 52)"
    by (rule to_double_eqI) (simp_all add: pow2_def)
  also have "\<dots> = 5404319552844595 / 18014398509481984"
    by (simp add: pow2_def)
  finally have q: "to_double (3 / 10) = 5404319552844595 / 18014398509481984" .
  have "to_double (5404319552844595 / 18014398509481984 * 100) = of_int 8444249301319680 * pow2 (4 - 52)"
    by (rule to_double_eqI) (simp_all add: pow2_def)
  also have "\<dots> = 30"
    by (simp add: pow2_def)
  finally have p: "to_double (5404319552844595 / 18014398509481984 * 100) = 30" .
  show ?thesis
    by (simp only: js_times_def js_divide_def q p)
qed

lemma toFixed1_30: "toFixed1 30 = ''30.0''"
proof -
  have "nat \<lfloor>10 * (30::rat) + 1 / 2\<rfloor> = 300"
    by (simp add: floor_rat_numeral)
  then show ?thesis
    by (simp add: toFixed1_def decimal1_def string_of_nat.simps digit_char_def)
qed

lemma completionRate_10_3: "completionRate (sample_stats 10 3) = RateText ''30.0''"
  by (simp add: completionRate_def totalReports_def resolvedCount_def status_count_def
        sample_stats_def completion_double_3_10 toFixed1_30)

lemma completion_double_big:
  "js_times (js_divide 3791318578911 29504424738607) 100 = 7233906901463859 / 562949953421312"
proof -
  have "to_double (3791318578911 / 29504424738607) = of_int 4629700416936870 * pow2 (- 3 - 52)"
    by (rule to_double_eqI) (simp_all add: pow2_def)
  also have "\<dots> = 4629700416936870 / 36028797018963968"
    by (simp add: pow2_def)
  finally have q: "to_double (3791318578911 / 29504424738607) = 4629700416936870 / 36028797018963968" .
  have "to_double (4629700416936870 / 36028797018963968 * 100) = of_int 7233906901463859 * pow2 (3 - 52)"
    by (rule to_double_eqI) (simp_all add: pow2_def)
  also have "\<dots> = 7233906901463859 / 562949953421312"
    by (simp add: pow2_def)
  finally have p: "to_double (4629700416936870 / 36028797018963968 * 100) = 7233906901463859 / 562949953421312" .
  show ?thesis
    by (simp only: js_times_def js_divide_def q p)
qed

lemma toFixed1_big: "toFixed1 (7233906901463859 / 562949953421312) = ''12.8''"
proof -
  have "nat \<lfloor>10 * (7233906901463859 / 562949953421312 :: rat) + 1 / 2\<rfloor> = 128"
    by (simp add: floor_rat_numeral)
  then show ?thesis
    by (simp add: toFixed1_def decimal1_def string_of_nat.simps digit_char_def)
qed

lemma completion_double_23_80:
  "js_times (js_divide 23 80) 100 = 8092405580431359 / 281474976710656"
proof -
  have "to_double (23 / 80) = of_int 5179139571476070 * pow2 (- 2 - 52)"
    by (rule to_double_eqI) (simp_all add: pow2_def)
  also have "\<dots> = 5179139571476070 / 18014398509481984"
    by (simp add: pow2_def)
  finally have q: "to_double (23 / 80) = 5179139571476070 / 18014398509481984" .
  have "to_double (5179139571476070 / 18014398509481984 * 100)
          = of_int 8092405580431359 * pow2 (4 - 52)"
    by (rule to_double_eqI) (simp_all add: pow2_def)
  also have "\<dots> = 8092405580431359 / 281474976710656"
    by (simp add: pow2_def)
  finally have p: "to_double (5179139571476070 / 18014398509481984 * 100)
                     = 8092405580431359 / 281474976710656" .
  show ?thesis
    by (simp only: js_times_def js_divide_def q p)
qed

lemma toFixed1_23_80: "toFixed1 (8092405580431359 / 281474976710656) = ''28.7''"
proof -
  have "nat \<lfloor>10 * (8092405580431359 / 281474976710656 :: rat) + 1 / 2\<rfloor> = 287"
    by (simp add: floor_rat_numeral)
  then show ?thesis
    by (simp add: toFixed1_def decimal1_def string_of_nat.simps digit_char_def)
qed

text \<open>At an exact tie the double can fall below it: 23 of 80 is 28.75 and is shown as 28.7.\<close>

lemma completionRate_80_23: "completionRate (sample_stats 80 23) = RateText ''28.7''"
  by (simp add: completionRate_def totalReports_def resolvedCount_def status_count_def
        sample_stats_def completion_double_23_80 toFixed1_23_80)

lemma completion_value_near:
  fixes r t :: nat
  assumes "0 < t" and "r < 2 ^ 41"
  shows "\<bar>of_int \<lfloor>10 * js_times (js_divide (of_nat r) (of_nat t)) 100 + 1 / 2\<rfloor>
           - 1000 * (of_nat r / of_nat t)\<bar> \<le> (1 / 2 :: rat)"
proof -
  define c :: rat where "c = 2 / 2 ^ 53 + 1 / 2 ^ 106"
  have c0: "0 \<le> c" by (simp add: c_def)
  have x0: "(0::rat) \<le> of_nat r / of_nat t" by simp
  have p: "\<bar>to_double (to_double (of_nat r / of_nat t) * 100) - 100 * (of_nat r / of_nat t)\<bar>
             \<le> 100 * (of_nat r / of_nat t) * c"
    using two_roundings_error [OF x0] by (simp only: c_def)
  have "(of_nat r :: rat) \<le> 2 ^ 41" using assms(2) by simp
  then have "2000 * of_nat r * c \<le> 2000 * 2 ^ 41 * c"
    using c0 by (intro mult_right_mono mult_left_mono) simp_all
  also have "2000 * 2 ^ 41 * c < 1"
    unfolding c_def by (simp add: field_simps)
  finally have c1: "2000 * of_nat r * c < 1" .
  show ?thesis
    using nearest_tenth [OF assms(1) c0 c1 p] by (simp only: js_times_def js_divide_def)
qed

lemma nearest_in_roundings:
  fixes X :: rat
  assumes "0 \<le> X" and "\<bar>of_int m - 10 * X\<bar> \<le> 1 / 2"
  shows "decimal1 (nat m) \<in> set (spec_one_decimal_roundings X)"
proof -
  define lo where "lo = \<lfloor>10 * X\<rfloor>"
  have lo0: "0 \<le> lo" using assms(1) by (simp add: lo_def)
  have lo: "of_int lo \<le> 10 * X" "10 * X < of_int lo + 1"
    unfolding lo_def by linarith+
  have "(of_int m :: rat) < of_int lo + 2" using assms(2) lo by linarith
  then have "(of_int m :: rat) < of_int (lo + 2)" by simp
  then have m_le: "m \<le> lo + 1" by (simp only: of_int_less_iff)
  have "(of_int lo :: rat) - 1 < of_int m" using assms(2) lo by linarith
  then have "(of_int (lo - 1) :: rat) < of_int m" by simp
  then have m_ge: "lo \<le> m" by (simp only: of_int_less_iff)
  have nat_lo: "(of_nat (nat lo) :: rat) = of_int lo" using lo0 by simp
  consider "m = lo" | "m = lo + 1" using m_le m_ge by linarith
  then show ?thesis
  proof cases
    case 1
    then have "10 * X - of_nat (nat lo) \<le> 1 / 2"
      using assms(2) nat_lo by linarith
    then show ?thesis
      using 1 by (simp add: spec_one_decimal_roundings_def Let_def flip: lo_def)
  next
    case 2
    then have n: "nat m = Suc (nat lo)" using lo0 by simp
    have "(of_nat (Suc (nat lo)) :: rat) = of_int m"
      using 2 lo0 by simp
    then have "of_nat (Suc (nat lo)) - 10 * X \<le> 1 / 2"
      using assms(2) by linarith
    then show ?thesis
      using n by (simp add: spec_one_decimal_roundings_def Let_def flip: lo_def)
  qed
qed

subsection \<open>The completion rate\<close>

text \<open>
  C8, as the specification states it, fails: for 3,791,318,578,911 resolved reports of
  29,504,424,738,607 the exact rate lies just above 12.85, so its rounding to one decimal
  is 12.9, while the two roundings of the double arithmetic leave a value below 12.85 and
  the text shown is 12.8.
\<close>

theorem completionRate_rounding_counterexample:
  "completionRate (sample_stats 29504424738607 3791318578911) = RateText ''12.8''
   \<and> ''12.8'' \<notin> set (spec_one_decimal_roundings (3791318578911 / 29504424738607 * 100))"
proof
  show "completionRate (sample_stats 29504424738607 3791318578911) = RateText ''12.8''"
    by (simp add: completionRate_def totalReports_def resolvedCount_def status_count_def
          sample_stats_def completion_double_big toFixed1_big)
  have lo: "nat \<lfloor>10 * (3791318578911 / 29504424738607 * 100 :: rat)\<rfloor> = 128"
    by (simp add: floor_rat_numeral)
  have d: "decimal1 129 = ''12.9''"
    by (simp add: decimal1_def string_of_nat.simps digit_char_def)
  show "''12.8'' \<notin> set (spec_one_decimal_roundings (3791318578911 / 29504424738607 * 100))"
    unfolding spec_one_decimal_roundings_def Let_def lo
    by (simp add: d)
qed

text \<open>
  C8, amended. With fewer than \<open>2^41\<close> resolved reports (and a total that a double holds
  exactly), the completion rate is the number 0 when the total is 0 or absent, and
  otherwise the text of a one-decimal numeral nearest to the exact
  \<open>resolved / total * 100\<close>; at an exact tie it may be either neighbour. For a total of 10
  with 3 resolved it is the text 30.0.
\<close>

theorem completionRate_one_decimal:
  assumes "resolvedCount stats < 2 ^ 41" and "totalReports stats < 2 ^ 53"
  shows "(totalReports stats = 0 \<longrightarrow> completionRate stats = RateNumber 0)
    \<and> (0 < totalReports stats \<longrightarrow>
         (\<exists>text. completionRate stats = RateText text
            \<and> text \<in> set (spec_one_decimal_roundings
                 (of_nat (resolvedCount stats) / of_nat (totalReports stats) * 100))))
    \<and> completionRate (sample_stats 10 3) = RateText ''30.0''"
proof (intro conjI impI)
  show "totalReports stats = 0 \<Longrightarrow> completionRate stats = RateNumber 0"
    by (simp add: completionRate_def)
next
  assume t: "0 < totalReports stats"
  let ?r = "resolvedCount stats" and ?t = "totalReports stats"
  define m where "m = \<lfloor>10 * js_times (js_divide (of_nat ?r) (of_nat ?t)) 100 + 1 / 2\<rfloor>"
  have "\<bar>of_int m - 1000 * (of_nat ?r / of_nat ?t)\<bar> \<le> (1 / 2 :: rat)"
    unfolding m_def using t assms(1) by (rule completion_value_near)
  then have "\<bar>of_int m - 10 * (of_nat ?r / of_nat ?t * 100)\<bar> \<le> (1 / 2 :: rat)"
    by simp
  then have "decimal1 (nat m) \<in> set (spec_one_decimal_roundings (of_nat ?r / of_nat ?t * 100))"
    by (intro nearest_in_roundings) simp_all
  moreover have "completionRate stats = RateText (decimal1 (nat m))"
    using t by (simp add: completionRate_def toFixed1_def m_def)
  ultimately show "\<exists>text. completionRate stats = RateText text
            \<and> text \<in> set (spec_one_decimal_roundings (of_nat ?r / of_nat ?t * 100))"
    by blast
next
  show "completionRate (sample_stats 10 3) = RateText ''30.0''"
    by (rule completionRate_10_3)
qed

theorem completionRate_one_decimal_witness:
  "completionRate (sample_stats 80 23) = RateText ''28.7''
   \<and> ''28.7'' \<in> set (spec_one_decimal_roundings (23 / 80 * 100))
   \<and> completionRate \<lparr>stats_total = None, by_status = None\<rparr> = RateNumber 0
   \<and> completionRate (sample_stats 0 0) = RateNumber 0"
proof -
  have f: "resolvedCount (sample_stats 80 23) = 23" "totalReports (sample_stats 80 23) = 80"
    "resolvedCount \<lparr>stats_total = None, by_status = None\<rparr> = 0"
    "totalReports \<lparr>stats_total = None, by_status = None\<rparr> = 0"
    "resolvedCount (sample_stats 0 0) = 0" "totalReports (sample_stats 0 0) = 0"
    by (simp_all add: resolvedCount_def totalReports_def status_count_def sample_stats_def)
  have b: "resolvedCount (sample_stats 80 23) < 2 ^ 41" "totalReports (sample_stats 80 23) < 2 ^ 53"
    "resolvedCount \<lparr>stats_total = None, by_status = None\<rparr> < 2 ^ 41"
    "totalReports \<lparr>stats_total = None, by_status = None\<rparr> < 2 ^ 53"
    "resolvedCount (sample_stats 0 0) < 2 ^ 41" "totalReports (sample_stats 0 0) < 2 ^ 53"
    by (simp_all only: f) simp_all
  show ?thesis
    using completionRate_one_decimal [OF b(1,2)] completionRate_one_decimal [OF b(3,4)]
          completionRate_one_decimal [OF b(5,6)] completionRate_80_23
    by (simp add: f)
qed

end
